theory Spec2Isabelle
  imports Complex_Main "HOL-Library.Multiset" "HOL-Library.Log_Nat"
begin

section \<open>ROI matching, sampling, encoding and decoding (libs/layers/roi.py)\<close>

text \<open>
  A shallow embedding of \<^verbatim>\<open>encode\<close>, \<^verbatim>\<open>decode\<close>, \<^verbatim>\<open>_compute_targets\<close> and
  \<^verbatim>\<open>_unmap\<close> (written \<open>compute_targets\<close> and \<open>unmap\<close>). Array entries are real
  numbers; infinities and NaN are not values. Where the source rounds, the model rounds:
  a store into an array of type \<^verbatim>\<open>np.float32\<close> (the results of \<^verbatim>\<open>_compute_targets\<close> and
  of \<^verbatim>\<open>_unmap\<close>) applies the rounding \<open>f32\<close> to the stored value, and the product
  \<^verbatim>\<open>rois_per_image * fg_roi_fraction\<close> of an integer and a double applies the rounding
  \<open>f64\<close> to the integer and to the product. Both roundings are parameters of the functions
  that round; \<open>float32\<close> and \<open>float64\<close> below are the roundings of IEEE 754, used in the
  examples. Comparisons, \<^verbatim>\<open>min\<close>, \<^verbatim>\<open>max\<close> and \<^verbatim>\<open>int\<close> are exact on floating-point
  numbers, and so is a store into a float64 array of an entry of another array. Index
  arrays hold natural numbers, as the results of \<^verbatim>\<open>np.where\<close> and \<^verbatim>\<open>argmax\<close> do; the
  class of a ground-truth box is an entry of its row, so labels are array entries too.
  Every exception the source can raise is a value of \<open>error\<close>; a function that can raise
  returns \<open>error + 'a\<close>.
\<close>

subsection \<open>Floating-point rounding\<close>

text \<open>
  Rounding to the nearest number with \<open>p\<close> significant bits, a tie going to the even
  significand, as a conversion to \<^verbatim>\<open>np.float32\<close> (24 bits, least exponent -126) or to a
  double (53 bits, least exponent -1022) does. \<open>rne\<close> rounds to the nearest integer,
  \<open>fexp m a\<close> is the binary exponent of \<open>a > 0\<close> but at least \<open>-m\<close>, where the
  subnormal numbers begin, and \<open>pow2 k\<close> is two to the power \<open>k\<close>. The exponent has no
  upper bound here: a value beyond the largest finite number of the format, which the
  hardware turns into an infinity, is outside the model.
\<close>

definition rne :: "real \<Rightarrow> int" where
  "rne q =
     (let f = \<lfloor>q\<rfloor>; d = q - of_int f
      in if d < 1 / 2 then f else if 1 / 2 < d then f + 1 else if even f then f else f + 1)"

fun doublings :: "nat \<Rightarrow> real \<Rightarrow> nat" where
  "doublings 0 a = 0"
| "doublings (Suc n) a = (if 1 \<le> a then 0 else Suc (doublings n (2 * a)))"

definition fexp :: "nat \<Rightarrow> real \<Rightarrow> int" where
  "fexp m a = (if 1 \<le> a then bitlen \<lfloor>a\<rfloor> - 1 else - int (doublings m a))"

definition pow2 :: "int \<Rightarrow> real" where
  "pow2 k = (if 0 \<le> k then 2 ^ nat k else 1 / 2 ^ nat (- k))"

definition fp_round :: "nat \<Rightarrow> nat \<Rightarrow> real \<Rightarrow> real" where
  "fp_round p m x =
     (if x = 0 then 0
      else let a = \<bar>x\<bar>; u = pow2 (fexp m a - int p + 1)
           in sgn x * of_int (rne (a / u)) * u)"

definition float32 :: "real \<Rightarrow> real" where
  "float32 = fp_round 24 126"

definition float64 :: "real \<Rightarrow> real" where
  "float64 = fp_round 53 1022"

text \<open>
  What the theorems below need of a rounding, when they need anything: it keeps zero and
  it is monotone.
\<close>

definition is_rounding :: "(real \<Rightarrow> real) \<Rightarrow> bool" where
  "is_rounding f = (f 0 = 0 \<and> mono f)"

subsection \<open>Errors\<close>

datatype error = AssertionError | IndexError | ValueError

definition bind_res :: "error + 'a \<Rightarrow> ('a \<Rightarrow> error + 'b) \<Rightarrow> error + 'b" where
  "bind_res m f = (case m of Inl e \<Rightarrow> Inl e | Inr x \<Rightarrow> f x)"

subsection \<open>Arrays\<close>

text \<open>
  A two-dimensional array carries its number of columns, so that an array with no rows
  still has a shape: \<^verbatim>\<open>rois[keep_inds, 0:4]\<close> with no kept index has shape (0, 4).
  \<open>wf_arr2\<close> says that every row has that many entries.
\<close>

datatype arr2 = Arr2 (ncols: nat) (rows: "real list list")

definition nrows :: "arr2 \<Rightarrow> nat" where
  "nrows a = length (rows a)"

definition wf_arr2 :: "arr2 \<Rightarrow> bool" where
  "wf_arr2 a = list_all (\<lambda>r. length r = ncols a) (rows a)"

text \<open>\<^verbatim>\<open>_unmap\<close> branches on the number of dimensions of its data.\<close>

datatype ndarray = Arr1 "real list" | ArrN arr2

text \<open>\<^verbatim>\<open>np.zeros((n, m))\<close>\<close>

definition zeros :: "nat \<Rightarrow> nat \<Rightarrow> arr2" where
  "zeros n m = Arr2 m (replicate n (replicate m 0))"

text \<open>\<^verbatim>\<open>np.where(cond)[0]\<close>: the positions where the condition holds, ascending.\<close>

definition np_where :: "('a \<Rightarrow> bool) \<Rightarrow> 'a list \<Rightarrow> nat list" where
  "np_where P xs = filter (\<lambda>i. P (xs ! i)) [0..<length xs]"

text \<open>\<^verbatim>\<open>a[:, 0:n]\<close>: a slice never raises, it takes the columns there are.\<close>

definition slice_cols :: "arr2 \<Rightarrow> nat \<Rightarrow> arr2" where
  "slice_cols a n = Arr2 (min n (ncols a)) (map (take n) (rows a))"

text \<open>\<^verbatim>\<open>v[idx]\<close> with an index array: IndexError when an index is out of bounds.\<close>

definition getitem_fancy :: "'a list \<Rightarrow> nat list \<Rightarrow> error + 'a list" where
  "getitem_fancy xs idx =
     (if list_all (\<lambda>i. i < length xs) idx then Inr (map (\<lambda>i. xs ! i) idx)
      else Inl IndexError)"

text \<open>\<^verbatim>\<open>a[idx, 0:n]\<close>\<close>

definition getitem_rows_cols :: "arr2 \<Rightarrow> nat list \<Rightarrow> nat \<Rightarrow> error + arr2" where
  "getitem_rows_cols a idx n =
     bind_res (getitem_fancy (rows a) idx)
       (\<lambda>rs. Inr (Arr2 (min n (ncols a)) (map (take n) rs)))"

text \<open>\<^verbatim>\<open>a[idx, c]\<close> with an index array and one column number.\<close>

definition getitem_rows_col :: "arr2 \<Rightarrow> nat list \<Rightarrow> nat \<Rightarrow> error + real list" where
  "getitem_rows_col a idx c =
     (if ncols a \<le> c then Inl IndexError
      else bind_res (getitem_fancy (rows a) idx) (\<lambda>rs. Inr (map (\<lambda>r. r ! c) rs)))"

text \<open>
  \<^verbatim>\<open>a[is, js]\<close> with two index arrays: the entries (is[p], js[p]). The source calls
  it with two arrays of one length; other lengths are an error here.
\<close>

definition getitem_pairs :: "arr2 \<Rightarrow> nat list \<Rightarrow> nat list \<Rightarrow> error + real list" where
  "getitem_pairs a is js =
     (if length is \<noteq> length js then Inl IndexError
      else if list_all2 (\<lambda>i j. i < nrows a \<and> j < ncols a) is js
        then Inr (map2 (\<lambda>i j. rows a ! i ! j) is js)
      else Inl IndexError)"

text \<open>
  \<^verbatim>\<open>row[start:stop] = v\<close> for a one-dimensional \<open>v\<close>: the slice is clipped to the row;
  \<open>v\<close> must have the slice's length or length one (which is broadcast), otherwise
  numpy raises ValueError.
\<close>

definition set_slice :: "real list \<Rightarrow> nat \<Rightarrow> nat \<Rightarrow> real list \<Rightarrow> error + real list" where
  "set_slice row start stop v =
     (let lo = min start (length row);
          hi = max lo (min stop (length row));
          n = hi - lo
      in if length v = n then Inr (take lo row @ v @ drop hi row)
         else if length v = 1 then Inr (take lo row @ replicate n (hd v) @ drop hi row)
         else Inl ValueError)"

text \<open>\<^verbatim>\<open>row[start:stop] = x\<close> for a scalar \<open>x\<close>: never raises.\<close>

definition fill_slice :: "real list \<Rightarrow> nat \<Rightarrow> nat \<Rightarrow> real \<Rightarrow> real list" where
  "fill_slice row start stop x =
     (let lo = min start (length row);
          hi = max lo (min stop (length row))
      in take lo row @ replicate (hi - lo) x @ drop hi row)"

text \<open>\<^verbatim>\<open>row[start:stop]\<close> read.\<close>

definition get_slice :: "'a list \<Rightarrow> nat \<Rightarrow> nat \<Rightarrow> 'a list" where
  "get_slice row start stop = drop start (take stop row)"

text \<open>
  \<^verbatim>\<open>ret[inds] = data\<close> (and \<^verbatim>\<open>ret[inds, :] = data\<close>, row by row): \<open>data\<close> must have
  as many rows as there are indices, or one row (which is broadcast to every index),
  otherwise numpy raises ValueError; an index out of bounds raises IndexError (which of
  the two is raised when both apply plays no role below). The writes happen in the
  order of \<open>inds\<close>, so a later write to the same index wins.
\<close>

definition assign_rows :: "'a list \<Rightarrow> nat list \<Rightarrow> 'a list \<Rightarrow> 'a list" where
  "assign_rows ret inds data = fold (\<lambda>(i, d) r. r[i := d]) (zip inds data) ret"

definition setitem_fancy :: "'a list \<Rightarrow> nat list \<Rightarrow> 'a list \<Rightarrow> error + 'a list" where
  "setitem_fancy ret inds data =
     (if length data \<noteq> length inds \<and> length data \<noteq> 1 then Inl ValueError
      else if \<not> list_all (\<lambda>i. i < length ret) inds then Inl IndexError
      else Inr (assign_rows ret inds
                 (if length data = length inds then data
                  else replicate (length inds) (hd data))))"

text \<open>\<^verbatim>\<open>v[inds] = x\<close> for a scalar \<open>x\<close>.\<close>

definition setitem_const :: "'a list \<Rightarrow> nat list \<Rightarrow> 'a \<Rightarrow> error + 'a list" where
  "setitem_const v inds x =
     (if list_all (\<lambda>i. i < length v) inds then Inr (fold (\<lambda>i r. r[i := x]) inds v)
      else Inl IndexError)"

text \<open>
  \<^verbatim>\<open>argmax\<close> of one row: the first position of the maximum, found by a scan that
  moves only to a strictly greater entry.
\<close>

fun argmax_from :: "nat \<Rightarrow> real \<Rightarrow> nat \<Rightarrow> real list \<Rightarrow> nat" where
  "argmax_from b bv i [] = b"
| "argmax_from b bv i (x # xs) =
     (if bv < x then argmax_from i x (Suc i) xs else argmax_from b bv (Suc i) xs)"

definition argmax :: "real list \<Rightarrow> nat" where
  "argmax xs = (case xs of [] \<Rightarrow> 0 | x # r \<Rightarrow> argmax_from 0 x 1 r)"

text \<open>
  \<^verbatim>\<open>a.argmax(axis=1)\<close> and \<^verbatim>\<open>np.max(a, axis=1)\<close>: ValueError when the array has no
  columns, whatever its number of rows.
\<close>

definition argmax_axis1 :: "arr2 \<Rightarrow> error + nat list" where
  "argmax_axis1 a = (if ncols a = 0 then Inl ValueError else Inr (map argmax (rows a)))"

definition amax :: "real list \<Rightarrow> real" where
  "amax xs = (case xs of [] \<Rightarrow> 0 | x # r \<Rightarrow> fold max r x)"

definition max_axis1 :: "arr2 \<Rightarrow> error + real list" where
  "max_axis1 a = (if ncols a = 0 then Inl ValueError else Inr (map amax (rows a)))"

text \<open>\<^verbatim>\<open>int(x)\<close> of a float truncates towards zero.\<close>

definition py_int :: "real \<Rightarrow> int" where
  "py_int x = (if 0 \<le> x then \<lfloor>x\<rfloor> else \<lceil>x\<rceil>)"

subsection \<open>Collaborators that are not part of the file\<close>

text \<open>
  Modelled from the spec: the configuration source \<^verbatim>\<open>libs.configs.config_v1\<close> is
  missing; it supplies the four scalars \<^verbatim>\<open>fg_threshold\<close>, \<^verbatim>\<open>bg_threshold\<close>,
  \<^verbatim>\<open>rois_per_image\<close> and \<^verbatim>\<open>fg_roi_fraction\<close>, read at call time.
\<close>

record config =
  fg_threshold :: real
  bg_threshold :: real
  rois_per_image :: int
  fg_roi_fraction :: real

text \<open>
  Modelled from the spec: the overlap computation \<^verbatim>\<open>cython_bbox.bbox_overlaps\<close> is
  missing; it returns the M x N matrix of the pairwise overlap of M boxes with N boxes.
  The overlap of one pair is the parameter \<open>iou\<close>.
\<close>

definition bbox_overlaps :: "(real list \<Rightarrow> real list \<Rightarrow> real) \<Rightarrow> arr2 \<Rightarrow> arr2 \<Rightarrow> arr2" where
  "bbox_overlaps iou boxes query_boxes =
     Arr2 (nrows query_boxes) (map (\<lambda>b. map (iou b) (rows query_boxes)) (rows boxes))"

text \<open>
  Modelled from the spec: the box-delta encoder \<^verbatim>\<open>bbox_transform\<close> is missing; it
  maps N anchor boxes and N target boxes to an N x 4 array, one four-dimensional delta
  per pair of rows. The delta of one pair is the parameter \<open>enc\<close>.
\<close>

type_synonym delta = "real \<times> real \<times> real \<times> real"

fun delta_row :: "delta \<Rightarrow> real list" where
  "delta_row (dx, dy, dw, dh) = [dx, dy, dw, dh]"

definition bbox_transform :: "(real list \<Rightarrow> real list \<Rightarrow> delta) \<Rightarrow> arr2 \<Rightarrow> arr2 \<Rightarrow> arr2" where
  "bbox_transform enc ex_rois gt_rois =
     Arr2 4 (map2 (\<lambda>a b. delta_row (enc a b)) (rows ex_rois) (rows gt_rois))"

text \<open>
  The random source. \<^verbatim>\<open>np.random.choice(a, size=n, replace=False)\<close> takes the first
  \<open>n\<close> entries of a random permutation of \<open>a\<close>; the permutation drawn is the parameter
  \<open>shuffle\<close>, and \<open>is_shuffle\<close> says that it is one. The call raises ValueError on an
  empty population, on a negative size and on a size above the population.
\<close>

definition is_shuffle :: "(nat list \<Rightarrow> nat list) \<Rightarrow> bool" where
  "is_shuffle shuffle = (\<forall>xs. mset (shuffle xs) = mset xs)"

definition random_choice :: "(nat list \<Rightarrow> nat list) \<Rightarrow> nat list \<Rightarrow> int \<Rightarrow> error + nat list" where
  "random_choice shuffle a n =
     (if a = [] then Inl ValueError
      else if n < 0 then Inl ValueError
      else if int (length a) < n then Inl ValueError
      else Inr (take (nat n) (shuffle a)))"

subsection \<open>\<^verbatim>\<open>_unmap\<close>\<close>

text \<open>
  The argument \<^verbatim>\<open>count\<close> is written \<open>cnt\<close>. The result \<^verbatim>\<open>ret\<close> is an array of type
  \<^verbatim>\<open>np.float32\<close>: \<^verbatim>\<open>ret.fill(fill)\<close> stores the rounded \<open>fill\<close>, and the assignment
  from \<open>data\<close> stores its rounded entries.
\<close>

fun unmap :: "(real \<Rightarrow> real) \<Rightarrow> ndarray \<Rightarrow> nat \<Rightarrow> nat list \<Rightarrow> real \<Rightarrow> error + ndarray" where
  "unmap f32 (Arr1 data) cnt inds fill =
     bind_res (setitem_fancy (replicate cnt (f32 fill)) inds (map f32 data))
       (\<lambda>ret. Inr (Arr1 ret))"
| "unmap f32 (ArrN data) cnt inds fill =
     bind_res (setitem_fancy (replicate cnt (replicate (ncols data) (f32 fill))) inds
                 (map (map f32) (rows data)))
       (\<lambda>ret. Inr (ArrN (Arr2 (ncols data) ret)))"

subsection \<open>\<^verbatim>\<open>_compute_targets\<close>\<close>

text \<open>
  The loop over \<^verbatim>\<open>inds\<close>. \<open>targets[ind, 0:4]\<close> is read first and raises IndexError when
  \<open>targets\<close> has no row \<open>ind\<close>; the rows \<open>ind\<close> of the two result arrays exist, since
  both have one row per label and \<open>ind\<close> is a position of a label. Both result arrays
  have type \<^verbatim>\<open>np.float32\<close>: the entries of \<open>targets\<close> are rounded when they are stored;
  the zeros of \<^verbatim>\<open>np.zeros\<close> and the constant 1 of the weights are numbers of that type.
\<close>

fun targets_loop ::
  "(real \<Rightarrow> real) \<Rightarrow> arr2 \<Rightarrow> real list \<Rightarrow> nat list \<Rightarrow> real list list \<times> real list list
     \<Rightarrow> error + real list list \<times> real list list" where
  "targets_loop f32 targets clss [] (bbox_targets, bbox_inside_weights) =
     Inr (bbox_targets, bbox_inside_weights)"
| "targets_loop f32 targets clss (ind # inds) (bbox_targets, bbox_inside_weights) =
     (let cls = nat (py_int (clss ! ind));
          start = 4 * cls;
          stop = start + 4
      in if nrows targets \<le> ind then Inl IndexError
         else bind_res (set_slice (bbox_targets ! ind) start stop
                          (map f32 (get_slice (rows targets ! ind) 0 4)))
           (\<lambda>row. targets_loop f32 targets clss inds
              (bbox_targets[ind := row],
               bbox_inside_weights[ind := fill_slice (bbox_inside_weights ! ind) start stop 1])))"

definition compute_targets ::
  "(real \<Rightarrow> real) \<Rightarrow> (real list \<Rightarrow> real list \<Rightarrow> delta) \<Rightarrow> arr2 \<Rightarrow> arr2 \<Rightarrow> real list \<Rightarrow> nat
     \<Rightarrow> error + arr2 \<times> arr2" where
  "compute_targets f32 enc ex_rois gt_rois labels num_classes =
     (if nrows ex_rois \<noteq> nrows gt_rois then Inl AssertionError
      else if ncols ex_rois \<noteq> 4 then Inl AssertionError
      else if ncols gt_rois \<noteq> 4 then Inl AssertionError
      else
        let targets = bbox_transform enc ex_rois gt_rois;
            clss = labels;
            bbox_targets = zeros (length clss) (4 * num_classes);
            bbox_inside_weights = zeros (length clss) (4 * num_classes);
            inds = np_where (\<lambda>c. c > 0) clss
        in bind_res (targets_loop f32 targets clss inds
                       (rows bbox_targets, rows bbox_inside_weights))
             (\<lambda>(t, w). Inr (Arr2 (4 * num_classes) t, Arr2 (4 * num_classes) w)))"

subsection \<open>\<^verbatim>\<open>encode\<close>\<close>

text \<open>Lines 30 to 39: overlaps, the assignment, the maximal overlaps and the labels.\<close>

definition encode_match ::
  "(real list \<Rightarrow> real list \<Rightarrow> real) \<Rightarrow> arr2 \<Rightarrow> arr2 \<Rightarrow> error + nat list \<times> real list \<times> real list" where
  "encode_match iou gt_boxes rois =
     (let all_rois = rois;
          overlaps = bbox_overlaps iou (slice_cols all_rois 4) (slice_cols gt_boxes 4)
      in bind_res (argmax_axis1 overlaps) (\<lambda>gt_assignment.
         bind_res (getitem_pairs overlaps [0..<nrows rois] gt_assignment) (\<lambda>max_overlaps.
         bind_res (getitem_rows_col gt_boxes gt_assignment 4) (\<lambda>labels.
         Inr (gt_assignment, max_overlaps, labels)))))"

text \<open>
  Lines 42 to 55: the two draws. The result is the labels after the background
  proposals were set to 0, the kept foreground indices, the kept background indices and
  \<^verbatim>\<open>keep_inds\<close>. In \<^verbatim>\<open>rois_per_image * fg_roi_fraction\<close> the integer is converted to a
  double and the product of the two doubles is rounded to a double; \<^verbatim>\<open>min\<close> compares
  the size with that double exactly and \<^verbatim>\<open>int\<close> truncates.
\<close>

definition encode_sample ::
  "config \<Rightarrow> (real \<Rightarrow> real) \<Rightarrow> (nat list \<Rightarrow> nat list) \<Rightarrow> (nat list \<Rightarrow> nat list) \<Rightarrow> real list
     \<Rightarrow> real list \<Rightarrow> error + real list \<times> nat list \<times> nat list \<times> nat list" where
  "encode_sample cfg f64 shuffle_fg shuffle_bg max_overlaps labels =
     (let fg_inds = np_where (\<lambda>v. v \<ge> fg_threshold cfg) max_overlaps;
          fg_rois = py_int (min (real (length fg_inds))
                                (f64 (f64 (real_of_int (rois_per_image cfg)) * fg_roi_fraction cfg)))
      in bind_res (if length fg_inds > 0 then random_choice shuffle_fg fg_inds fg_rois
                   else Inr fg_inds) (\<lambda>fg_inds.
         let bg_rois = rois_per_image cfg - fg_rois;
             bg_inds = np_where (\<lambda>v. v < bg_threshold cfg) max_overlaps
         in bind_res (setitem_const labels bg_inds 0) (\<lambda>labels.
            bind_res (if length bg_inds > 0 \<and> bg_rois < int (length bg_inds)
                      then random_choice shuffle_bg bg_inds bg_rois
                      else Inr bg_inds) (\<lambda>bg_inds.
            let keep_inds = fg_inds @ bg_inds
            in Inr (labels, fg_inds, bg_inds, keep_inds)))))"

text \<open>
  Names for three values of the sampling stage: the foreground-eligible and the
  background-eligible positions (\<^verbatim>\<open>fg_inds\<close> and \<^verbatim>\<open>bg_inds\<close> before a draw replaces
  them) and the foreground target count \<^verbatim>\<open>fg_rois\<close>.
\<close>

definition fg_eligible :: "config \<Rightarrow> real list \<Rightarrow> nat list" where
  "fg_eligible cfg max_overlaps = np_where (\<lambda>v. v \<ge> fg_threshold cfg) max_overlaps"

definition bg_eligible :: "config \<Rightarrow> real list \<Rightarrow> nat list" where
  "bg_eligible cfg max_overlaps = np_where (\<lambda>v. v < bg_threshold cfg) max_overlaps"

definition fg_target :: "config \<Rightarrow> (real \<Rightarrow> real) \<Rightarrow> real list \<Rightarrow> int" where
  "fg_target cfg f64 max_overlaps =
     py_int (min (real (length (fg_eligible cfg max_overlaps)))
                 (f64 (f64 (real_of_int (rois_per_image cfg)) * fg_roi_fraction cfg)))"

text \<open>The whole function; lines 57 to 62 follow the two stages above.\<close>

definition encode ::
  "config \<Rightarrow> (real \<Rightarrow> real) \<Rightarrow> (real \<Rightarrow> real) \<Rightarrow> (real list \<Rightarrow> real list \<Rightarrow> real)
     \<Rightarrow> (real list \<Rightarrow> real list \<Rightarrow> delta) \<Rightarrow> (nat list \<Rightarrow> nat list) \<Rightarrow> (nat list \<Rightarrow> nat list)
     \<Rightarrow> arr2 \<Rightarrow> arr2 \<Rightarrow> nat \<Rightarrow> error + real list \<times> arr2 \<times> ndarray \<times> ndarray" where
  "encode cfg f32 f64 iou enc shuffle_fg shuffle_bg gt_boxes rois num_classes =
     (let num_rois = nrows rois
      in bind_res (encode_match iou gt_boxes rois) (\<lambda>(gt_assignment, max_overlaps, labels).
         bind_res (encode_sample cfg f64 shuffle_fg shuffle_bg max_overlaps labels)
           (\<lambda>(labels, fg_inds, bg_inds, keep_inds).
         bind_res (getitem_rows_cols rois keep_inds 4) (\<lambda>ex_rois.
         bind_res (getitem_fancy gt_assignment keep_inds) (\<lambda>kept_assignment.
         bind_res (getitem_rows_cols gt_boxes kept_assignment 4) (\<lambda>gt_rois.
         bind_res (compute_targets f32 enc ex_rois gt_rois labels num_classes)
           (\<lambda>(bbox_targets, bbox_inside_weights).
         bind_res (unmap f32 (ArrN bbox_targets) num_rois keep_inds 0) (\<lambda>bbox_targets.
         bind_res (unmap f32 (ArrN bbox_inside_weights) num_rois keep_inds 0)
           (\<lambda>bbox_inside_weights.
         Inr (labels, rois, bbox_targets, bbox_inside_weights))))))))))"

subsection \<open>\<^verbatim>\<open>decode\<close>\<close>

text \<open>
  Modelled from the spec: the box-delta decoder \<^verbatim>\<open>bbox_transform_inv\<close> and the
  clipper \<^verbatim>\<open>clip_boxes\<close> are missing; both are parameters that map arrays to arrays.
\<close>

fun decode_loop ::
  "arr2 \<Rightarrow> nat list \<Rightarrow> nat list \<Rightarrow> real list list \<Rightarrow> error + real list list" where
  "decode_loop boxes classes [] final_boxes = Inr final_boxes"
| "decode_loop boxes classes (i # is) final_boxes =
     (if length classes \<le> i then Inl IndexError
      else
        let ind = classes ! i * 4
        in bind_res (set_slice (final_boxes ! i) 0 4 (get_slice (rows boxes ! i) ind (ind + 4)))
             (\<lambda>row. decode_loop boxes classes is (final_boxes[i := row])))"

definition decode ::
  "(arr2 \<Rightarrow> arr2 \<Rightarrow> arr2) \<Rightarrow> (arr2 \<Rightarrow> real \<times> real \<Rightarrow> arr2) \<Rightarrow> arr2 \<Rightarrow> arr2 \<Rightarrow> arr2 \<Rightarrow> real \<Rightarrow> real
     \<Rightarrow> error + arr2 \<times> nat list \<times> real list" where
  "decode bbox_transform_inv clip_boxes boxes scores rois ih iw =
     (let boxes = bbox_transform_inv rois boxes
      in bind_res (argmax_axis1 scores) (\<lambda>classes.
         bind_res (max_axis1 scores) (\<lambda>scores.
         let final_boxes = zeros (nrows boxes) 4
         in bind_res (decode_loop boxes classes [0..<nrows boxes] (rows final_boxes))
              (\<lambda>final_boxes.
         Inr (clip_boxes (Arr2 4 final_boxes) (ih, iw), classes, scores)))))"

subsection \<open>Instances of the collaborators, for the examples\<close>

text \<open>
  The examples below need an overlap function, an encoder and a configuration. They use
  the intersection over union of two boxes given by their corners, the corner-wise
  difference of two boxes, and the thresholds 0.5 and 0.1 with 256 rois per image, a
  quarter of them foreground.
\<close>

definition box_iou :: "real list \<Rightarrow> real list \<Rightarrow> real" where
  "box_iou a b =
     (let iw = min (a ! 2) (b ! 2) - max (a ! 0) (b ! 0);
          ih = min (a ! 3) (b ! 3) - max (a ! 1) (b ! 1);
          inter = (if 0 < iw \<and> 0 < ih then iw * ih else 0);
          ua = (a ! 2 - a ! 0) * (a ! 3 - a ! 1) + (b ! 2 - b ! 0) * (b ! 3 - b ! 1) - inter
      in if 0 < ua then inter / ua else 0)"

definition corner_delta :: "real list \<Rightarrow> real list \<Rightarrow> delta" where
  "corner_delta a b = (b ! 0 - a ! 0, b ! 1 - a ! 1, b ! 2 - a ! 2, b ! 3 - a ! 3)"

definition example_config :: config where
  "example_config =
     \<lparr>fg_threshold = 1 / 2, bg_threshold = 1 / 10, rois_per_image = 256,
      fg_roi_fraction = 1 / 4\<rparr>"


text \<open>
  A configuration whose product is rounded: ten rois per image, and the double nearest
  to 0.3 as the foreground fraction. That double is below three tenths, and the product
  of 10 and it, as the source computes it, is 3.
\<close>

definition rounded_config :: config where
  "rounded_config =
     \<lparr>fg_threshold = 1 / 2, bg_threshold = 1 / 10, rois_per_image = 10,
      fg_roi_fraction = float64 (3 / 10)\<rparr>"

section \<open>The roundings keep zero and are monotone\<close>

lemma rne_bounds: "\<lfloor>q\<rfloor> \<le> rne q \<and> rne q \<le> \<lfloor>q\<rfloor> + 1"
  by (simp add: rne_def Let_def)

lemma rne_of_int [simp]: "rne (of_int n) = n"
  by (simp add: rne_def Let_def)

lemma rne_mono:
  assumes "q \<le> q'"
  shows "rne q \<le> rne q'"
proof (cases "\<lfloor>q\<rfloor> < \<lfloor>q'\<rfloor>")
  case True
  with rne_bounds [of q] rne_bounds [of q'] show ?thesis by linarith
next
  case False
  with assms have f: "\<lfloor>q'\<rfloor> = \<lfloor>q\<rfloor>" using floor_mono [OF assms] by linarith
  with assms have "q - of_int \<lfloor>q\<rfloor> \<le> q' - of_int \<lfloor>q\<rfloor>" by simp
  then show ?thesis unfolding rne_def Let_def f by (auto split: if_splits)
qed

lemma pow2_powr: "pow2 k = 2 powr (real_of_int k)"
proof (cases "0 \<le> k")
  case True
  then show ?thesis by (simp add: pow2_def powr_realpow [symmetric])
next
  case False
  then have r: "real (nat (- k)) = - real_of_int k" by simp
  have "(2::real) ^ nat (- k) = 2 powr real (nat (- k))" by (simp add: powr_realpow)
  also have "\<dots> = 2 powr (- real_of_int k)" by (simp only: r)
  finally have "(2::real) ^ nat (- k) = 2 powr (- real_of_int k)" .
  moreover have "2 powr (real_of_int k) = 1 / 2 powr (- real_of_int k)"
    using powr_minus_divide [of 2 "- real_of_int k"] by simp
  ultimately show ?thesis using False by (simp add: pow2_def)
qed

lemma pow2_pos [simp]: "0 < pow2 k"
  by (simp add: pow2_powr)

lemma pow2_nonneg [simp]: "0 \<le> pow2 k"
  using pow2_pos [of k] by (rule less_imp_le)

lemma pow2_add: "pow2 (j + k) = pow2 j * pow2 k"
  by (simp add: pow2_powr powr_add)

lemma pow2_mono: "j \<le> k \<Longrightarrow> pow2 j \<le> pow2 k"
  by (simp add: pow2_powr)

lemma pow2_nat: "pow2 (int n) = 2 ^ n"
  by (simp add: pow2_def)

lemma doublings_le: "doublings n a \<le> n"
  by (induction n arbitrary: a) simp_all

lemma doublings_bounds:
  "0 < a \<Longrightarrow> a < 2 \<Longrightarrow>
   a * 2 ^ doublings n a < 2 \<and> (doublings n a < n \<longrightarrow> 1 \<le> a * 2 ^ doublings n a)"
proof (induction n arbitrary: a)
  case 0
  then show ?case by simp
next
  case (Suc n)
  show ?case
  proof (cases "1 \<le> a")
    case True
    with Suc.prems show ?thesis by simp
  next
    case False
    with Suc.prems have "0 < 2 * a" "2 * a < 2" by simp_all
    from Suc.IH [OF this] False show ?thesis by (simp add: ac_simps)
  qed
qed

lemma bitlen_pos: "0 < n \<Longrightarrow> 0 < bitlen n"
proof (rule ccontr)
  assume n: "0 < n" and "\<not> 0 < bitlen n"
  then have "nat (bitlen n) = 0" by simp
  with bitlen_bounds [OF n] have "n < 1" by simp
  with n show False by simp
qed

lemma fexp_ge: "- int m \<le> fexp m a"
proof (cases "1 \<le> a")
  case True
  then have "0 < \<lfloor>a\<rfloor>" by simp
  then have "0 < bitlen \<lfloor>a\<rfloor>" by (rule bitlen_pos)
  with True show ?thesis by (simp add: fexp_def)
next
  case False
  with doublings_le [of m a] show ?thesis by (simp add: fexp_def)
qed

lemma fexp_bounds:
  assumes "0 < a"
  shows "a < pow2 (fexp m a + 1) \<and> (- int m < fexp m a \<longrightarrow> pow2 (fexp m a) \<le> a)"
proof (cases "1 \<le> a")
  case True
  let ?n = "\<lfloor>a\<rfloor>"
  from True have n: "0 < ?n" by simp
  from bitlen_bounds [OF n] have lo: "2 ^ nat (bitlen ?n - 1) \<le> ?n" and hi: "?n < 2 ^ nat (bitlen ?n)"
    by blast+
  from n have b: "0 < bitlen ?n" by (rule bitlen_pos)
  have e: "fexp m a = bitlen ?n - 1" using True by (simp add: fexp_def)
  have "real_of_int ?n + 1 \<le> 2 ^ nat (bitlen ?n)"
  proof -
    from hi have "?n + 1 \<le> 2 ^ nat (bitlen ?n)" by simp
    then have "real_of_int (?n + 1) \<le> real_of_int (2 ^ nat (bitlen ?n))" by (rule of_int_le_iff [THEN iffD2])
    then show ?thesis by simp
  qed
  moreover have "a < real_of_int ?n + 1" by linarith
  ultimately have "a < 2 ^ nat (bitlen ?n)" by linarith
  then have 1: "a < pow2 (fexp m a + 1)" using b by (simp add: e pow2_def)
  have lo': "real_of_int (2 ^ nat (bitlen ?n - 1)) \<le> real_of_int ?n"
    using lo by (rule of_int_le_iff [THEN iffD2])
  have "real_of_int (2 ^ nat (bitlen ?n - 1)) = 2 ^ nat (bitlen ?n - 1)" by simp
  with lo' have "2 ^ nat (bitlen ?n - 1) \<le> a" using of_int_floor_le [of a] by linarith
  then have 2: "pow2 (fexp m a) \<le> a" using b by (simp add: e pow2_def)
  from 1 2 show ?thesis by blast
next
  case False
  let ?k = "doublings m a"
  from False assms have a: "0 < a" "a < 2" by simp_all
  note d = doublings_bounds [OF a, of m]
  have e: "fexp m a = - int ?k" using False by (simp add: fexp_def)
  have p: "pow2 (- int ?k) * 2 ^ ?k = 1"
    using pow2_add [of "- int ?k" "int ?k"] by (simp add: pow2_nat pow2_def)
  have pp: "0 < pow2 (- int ?k)" by simp
  have q: "a * 2 ^ ?k * pow2 (- int ?k) = a"
  proof -
    have "a * 2 ^ ?k * pow2 (- int ?k) = a * (pow2 (- int ?k) * 2 ^ ?k)" by (simp only: ac_simps)
    also have "\<dots> = a" by (simp only: p mult_1_right)
    finally show ?thesis .
  qed
  have 1: "a < pow2 (fexp m a + 1)"
  proof -
    from d have "a * 2 ^ ?k * pow2 (- int ?k) < 2 * pow2 (- int ?k)"
      using pp by (intro mult_strict_right_mono) simp_all
    then have "a < 2 * pow2 (- int ?k)" by (simp only: q)
    also have "\<dots> = pow2 (- int ?k + 1)"
    proof -
      have "pow2 1 = 2" by (simp add: pow2_def)
      then show ?thesis by (simp only: pow2_add [of "- int ?k" 1] mult.commute)
    qed
    finally show ?thesis by (simp add: e)
  qed
  have 2: "- int m < fexp m a \<longrightarrow> pow2 (fexp m a) \<le> a"
  proof
    assume "- int m < fexp m a"
    then have "?k < m" by (simp add: e)
    with d have "1 \<le> a * 2 ^ ?k" by blast
    then have "1 * pow2 (- int ?k) \<le> a * 2 ^ ?k * pow2 (- int ?k)"
      using pp by (intro mult_right_mono) simp_all
    then have "pow2 (- int ?k) \<le> a" by (simp only: q mult_1)
    then show "pow2 (fexp m a) \<le> a" by (simp add: e)
  qed
  from 1 2 show ?thesis by blast
qed

lemma fexp_mono:
  assumes "0 < a" "a \<le> b"
  shows "fexp m a \<le> fexp m b"
proof (rule ccontr)
  assume "\<not> fexp m a \<le> fexp m b"
  then have lt: "fexp m b + 1 \<le> fexp m a" by simp
  with fexp_ge [of m b] have "- int m < fexp m a" by linarith
  with fexp_bounds [OF assms(1), of m] have "pow2 (fexp m a) \<le> a" by blast
  moreover from assms have "0 < b" by simp
  from fexp_bounds [OF this, of m] have "b < pow2 (fexp m b + 1)" by blast
  moreover have "pow2 (fexp m b + 1) \<le> pow2 (fexp m a)" using lt by (rule pow2_mono)
  ultimately show False using assms(2) by linarith
qed

lemma fp_round_pos:
  assumes "0 < x"
  shows "fp_round p m x = of_int (rne (x / pow2 (fexp m x - int p + 1))) * pow2 (fexp m x - int p + 1)"
  using assms by (simp add: fp_round_def Let_def)

lemma fp_round_minus: "fp_round p m (- x) = - fp_round p m x"
  by (simp add: fp_round_def Let_def sgn_minus)

lemma fp_round_nonneg:
  assumes "0 \<le> x"
  shows "0 \<le> fp_round p m x"
proof (cases "x = 0")
  case True
  then show ?thesis by (simp add: fp_round_def)
next
  case False
  with assms have x: "0 < x" by simp
  let ?u = "pow2 (fexp m x - int p + 1)"
  have "0 \<le> x / ?u" using x by (intro divide_nonneg_pos) simp_all
  then have "rne 0 \<le> rne (x / ?u)" by (rule rne_mono)
  then have "0 \<le> rne (x / ?u)" using rne_of_int [of 0] by simp
  then show ?thesis unfolding fp_round_pos [OF x] by simp
qed

lemma fp_round_mono_pos:
  assumes "0 < p" "0 < x" "x \<le> y"
  shows "fp_round p m x \<le> fp_round p m y"
proof -
  from assms have y: "0 < y" by simp
  let ?ex = "fexp m x" and ?ey = "fexp m y"
  let ?ux = "pow2 (?ex - int p + 1)" and ?uy = "pow2 (?ey - int p + 1)"
  have le: "?ex \<le> ?ey" using assms(2,3) by (rule fexp_mono)
  show ?thesis
  proof (cases "?ex = ?ey")
    case True
    have "x / ?uy \<le> y / ?uy" using assms(3) by (intro divide_right_mono) (simp_all add: less_imp_le)
    then have "rne (x / ?uy) \<le> rne (y / ?uy)" by (rule rne_mono)
    then have "real_of_int (rne (x / ?uy)) * ?uy \<le> real_of_int (rne (y / ?uy)) * ?uy"
      by (intro mult_right_mono) simp_all
    then show ?thesis unfolding fp_round_pos [OF assms(2)] fp_round_pos [OF y] True .
  next
    case False
    with le have lt: "?ex + 1 \<le> ?ey" by simp
    have upx: "real_of_int (rne (x / ?ux)) * ?ux \<le> pow2 (?ex + 1)"
    proof -
      from fexp_bounds [OF assms(2), of m] have "x < pow2 (?ex + 1)" by blast
      also have "pow2 (?ex + 1) = 2 ^ p * ?ux"
        using pow2_add [of "int p" "?ex - int p + 1"] by (simp add: pow2_nat)
      finally have "x / ?ux \<le> 2 ^ p" by (simp add: pos_divide_le_eq)
      then have "x / ?ux \<le> real_of_int (2 ^ p)" by simp
      then have "rne (x / ?ux) \<le> rne (real_of_int (2 ^ p))" by (rule rne_mono)
      then have "rne (x / ?ux) \<le> 2 ^ p" by (simp only: rne_of_int)
      then have "real_of_int (rne (x / ?ux)) \<le> real_of_int (2 ^ p)" by (rule of_int_le_iff [THEN iffD2])
      then have "real_of_int (rne (x / ?ux)) * ?ux \<le> real_of_int (2 ^ p) * ?ux"
        by (intro mult_right_mono) simp_all
      also have "\<dots> = pow2 (?ex + 1)"
        using pow2_add [of "int p" "?ex - int p + 1"] by (simp add: pow2_nat)
      finally show ?thesis .
    qed
    have loy: "pow2 ?ey \<le> real_of_int (rne (y / ?uy)) * ?uy"
    proof -
      from lt fexp_ge [of m x] have "- int m < ?ey" by linarith
      with fexp_bounds [OF y, of m] have "pow2 ?ey \<le> y" by blast
      moreover have e: "pow2 ?ey = 2 ^ (p - 1) * ?uy"
      proof -
        have "int (p - 1) + (?ey - int p + 1) = ?ey" using assms(1) by linarith
        then have "pow2 ?ey = pow2 (int (p - 1)) * ?uy" by (simp only: pow2_add [symmetric])
        then show ?thesis by (simp only: pow2_nat)
      qed
      ultimately have "2 ^ (p - 1) \<le> y / ?uy" by (simp add: pos_le_divide_eq)
      then have "real_of_int (2 ^ (p - 1)) \<le> y / ?uy" by simp
      then have "rne (real_of_int (2 ^ (p - 1))) \<le> rne (y / ?uy)" by (rule rne_mono)
      then have "2 ^ (p - 1) \<le> rne (y / ?uy)" by (simp only: rne_of_int)
      then have "real_of_int (2 ^ (p - 1)) \<le> real_of_int (rne (y / ?uy))"
        by (rule of_int_le_iff [THEN iffD2])
      then have "real_of_int (2 ^ (p - 1)) * ?uy \<le> real_of_int (rne (y / ?uy)) * ?uy"
        by (intro mult_right_mono) simp_all
      with e show ?thesis by simp
    qed
    have "pow2 (?ex + 1) \<le> pow2 ?ey" using lt by (rule pow2_mono)
    with upx loy show ?thesis unfolding fp_round_pos [OF assms(2)] fp_round_pos [OF y] by linarith
  qed
qed

lemma fp_round_mono:
  assumes "0 < p" "x \<le> y"
  shows "fp_round p m x \<le> fp_round p m y"
proof -
  consider "0 < x" | "x \<le> 0" "0 \<le> y" | "y < 0" by linarith
  then show ?thesis
  proof cases
    case 1
    with assms show ?thesis by (intro fp_round_mono_pos)
  next
    case 2
    then have "0 \<le> - x" by simp
    from fp_round_nonneg [OF this, of p m] have "fp_round p m x \<le> 0" by (simp add: fp_round_minus)
    with fp_round_nonneg [OF 2(2), of p m] show ?thesis by linarith
  next
    case 3
    with assms have "0 < - y" "- y \<le> - x" by simp_all
    from fp_round_mono_pos [OF assms(1) this, of m] show ?thesis by (simp add: fp_round_minus)
  qed
qed

lemma is_rounding_fp_round:
  assumes "0 < p"
  shows "is_rounding (fp_round p m)"
  unfolding is_rounding_def
proof (intro conjI monoI)
  show "fp_round p m 0 = 0" by (simp add: fp_round_def)
next
  fix x y :: real
  assume "x \<le> y"
  with assms show "fp_round p m x \<le> fp_round p m y" by (rule fp_round_mono)
qed

lemma is_rounding_float64: "is_rounding float64"
  unfolding float64_def by (rule is_rounding_fp_round) simp

lemma is_rounding_float32: "is_rounding float32"
  unfolding float32_def by (rule is_rounding_fp_round) simp

section \<open>Basic facts\<close>

lemma bind_res_Inl [simp]: "bind_res (Inl e) f = Inl e"
  by (simp add: bind_res_def)

lemma bind_res_Inr [simp]: "bind_res (Inr x) f = f x"
  by (simp add: bind_res_def)

lemma bind_res_eq_Inr: "bind_res m f = Inr y \<longleftrightarrow> (\<exists>x. m = Inr x \<and> f x = Inr y)"
  by (cases m) simp_all

section \<open>Scattering rows by index\<close>

lemma fold_upd_length: "length (fold (\<lambda>(i, d) r. r[i := d]) ps ret) = length ret"
  by (induction ps arbitrary: ret) (auto split: prod.splits)

lemma assign_rows_length [simp]: "length (assign_rows ret inds data) = length ret"
  by (simp add: assign_rows_def fold_upd_length)

lemma fold_upd_other:
  "j \<notin> fst ` set ps \<Longrightarrow> fold (\<lambda>(i, d) r. r[i := d]) ps ret ! j = ret ! j"
  by (induction ps arbitrary: ret) (auto split: prod.splits)

lemma fold_upd_last:
  "p < length ps \<Longrightarrow> fst (ps ! p) = j \<Longrightarrow> j < length ret
   \<Longrightarrow> \<forall>q. p < q \<and> q < length ps \<longrightarrow> fst (ps ! q) \<noteq> j
   \<Longrightarrow> fold (\<lambda>(i, d) r. r[i := d]) ps ret ! j = snd (ps ! p)"
proof (induction ps arbitrary: ret p)
  case Nil
  then show ?case by simp
next
  case (Cons x ps)
  obtain i d where x: "x = (i, d)" by (cases x)
  show ?case
  proof (cases p)
    case 0
    have "j \<notin> fst ` set ps"
    proof
      assume "j \<in> fst ` set ps"
      then obtain q where "q < length ps" "fst (ps ! q) = j"
        by (auto simp: in_set_conv_nth)
      with Cons.prems(4) [rule_format, of "Suc q"] 0 show False by simp
    qed
    then have "fold (\<lambda>(i, d) r. r[i := d]) ps (ret[i := d]) ! j = ret[i := d] ! j"
      by (rule fold_upd_other)
    with Cons.prems 0 x show ?thesis by simp
  next
    case (Suc p')
    have "fold (\<lambda>(i, d) r. r[i := d]) ps (ret[i := d]) ! j = snd (ps ! p')"
    proof (rule Cons.IH)
      show "p' < length ps" using Cons.prems(1) Suc by simp
      show "fst (ps ! p') = j" using Cons.prems(2) Suc by simp
      show "j < length (ret[i := d])" using Cons.prems(3) by simp
      show "\<forall>q. p' < q \<and> q < length ps \<longrightarrow> fst (ps ! q) \<noteq> j"
        using Cons.prems(4) [rule_format, of "Suc _"] Suc by auto
    qed
    with Suc x show ?thesis by simp
  qed
qed

lemma assign_rows_other:
  "j \<notin> set inds \<Longrightarrow> assign_rows ret inds data ! j = ret ! j"
  unfolding assign_rows_def
  by (rule fold_upd_other) (auto dest: set_zip_leftD)

lemma assign_rows_last:
  assumes "length data = length inds" "p < length inds" "inds ! p = j" "j < length ret"
    and "\<forall>q. p < q \<and> q < length inds \<longrightarrow> inds ! q \<noteq> j"
  shows "assign_rows ret inds data ! j = data ! p"
proof -
  have "fold (\<lambda>(i, d) r. r[i := d]) (zip inds data) ret ! j = snd (zip inds data ! p)"
    by (rule fold_upd_last) (use assms in auto)
  with assms show ?thesis by (simp add: assign_rows_def)
qed

lemma setitem_fancy_ok:
  assumes "length data = length inds" "\<forall>i\<in>set inds. i < length ret"
  shows "setitem_fancy ret inds data = Inr (assign_rows ret inds data)"
  using assms by (simp add: setitem_fancy_def list_all_iff)



lemma setitem_fancy_other:
  "setitem_fancy ret inds data = Inr r \<Longrightarrow> j \<notin> set inds \<Longrightarrow> r ! j = ret ! j"
  by (auto simp: setitem_fancy_def assign_rows_other split: if_splits)

lemma setitem_fancy_length:
  "setitem_fancy ret inds data = Inr r \<Longrightarrow> length r = length ret"
  by (auto simp: setitem_fancy_def split: if_splits)

section \<open>The target expander\<close>

lemma set_slice_length: "set_slice row start stop v = Inr r \<Longrightarrow> length r = length row"
  by (auto simp: set_slice_def Let_def split: if_splits)

lemma fill_slice_length [simp]: "length (fill_slice row start stop x) = length row"
  by (auto simp: fill_slice_def Let_def)

lemma set_slice_not_assert: "set_slice row start stop v \<noteq> Inl AssertionError"
  by (auto simp: set_slice_def Let_def)

lemma set_slice_fits:
  "stop \<le> length row \<Longrightarrow> start \<le> stop \<Longrightarrow> length v = stop - start
   \<Longrightarrow> set_slice row start stop v = Inr (take start row @ v @ drop stop row)"
  by (simp add: set_slice_def Let_def min_def max_def)

lemma fill_slice_fits:
  "stop \<le> length row \<Longrightarrow> start \<le> stop
   \<Longrightarrow> fill_slice row start stop x = take start row @ replicate (stop - start) x @ drop stop row"
  by (simp add: fill_slice_def Let_def min_def max_def)

lemma targets_loop_shape:
  "targets_loop f32 targets clss inds (bt, bw) = Inr (bt', bw')
   \<Longrightarrow> length bt' = length bt \<and> length bw' = length bw \<and>
       (list_all (\<lambda>r. length r = W) bt \<longrightarrow> list_all (\<lambda>r. length r = W) bt') \<and>
       (list_all (\<lambda>r. length r = W) bw \<longrightarrow> list_all (\<lambda>r. length r = W) bw')"
proof (induction inds arbitrary: bt bw)
  case Nil
  then show ?case by simp
next
  case (Cons ind inds)
  let ?c = "nat (py_int (clss ! ind))"
  from Cons.prems obtain row where
    row: "set_slice (bt ! ind) (4 * ?c) (4 * ?c + 4)
            (map f32 (get_slice (rows targets ! ind) 0 4)) = Inr row"
    and rec: "targets_loop f32 targets clss inds
        (bt[ind := row], bw[ind := fill_slice (bw ! ind) (4 * ?c) (4 * ?c + 4) 1]) = Inr (bt', bw')"
    by (auto simp: Let_def bind_res_eq_Inr split: if_splits)
  note ih = Cons.IH [OF rec]
  have len: "length row = length (bt ! ind)" using row by (rule set_slice_length)
  have a: "list_all (\<lambda>r. length r = W) bt \<Longrightarrow> list_all (\<lambda>r. length r = W) (bt[ind := row])"
    using len by (cases "ind < length bt") (auto simp: list_all_length nth_list_update)
  have b: "list_all (\<lambda>r. length r = W) bw
    \<Longrightarrow> list_all (\<lambda>r. length r = W) (bw[ind := fill_slice (bw ! ind) (4 * ?c) (4 * ?c + 4) 1])"
    by (cases "ind < length bw") (auto simp: list_all_length nth_list_update)
  from ih a b show ?case by auto
qed

lemma targets_loop_not_assert:
  "targets_loop f32 targets clss inds (bt, bw) \<noteq> Inl AssertionError"
proof (induction inds arbitrary: bt bw)
  case Nil
  then show ?case by simp
next
  case (Cons ind inds)
  show ?case
    using Cons.IH set_slice_not_assert
    by (auto simp: Let_def bind_res_def split: sum.splits)
qed

lemma compute_targets_shape:
  assumes "compute_targets f32 enc ex_rois gt_rois labels num_classes = Inr (t, w)"
  shows "nrows t = length labels \<and> ncols t = 4 * num_classes \<and> wf_arr2 t \<and>
         nrows w = length labels \<and> ncols w = 4 * num_classes \<and> wf_arr2 w"
proof -
  let ?z = "replicate (length labels) (replicate (4 * num_classes) (0::real))"
  from assms obtain bt bw where
    loop: "targets_loop f32 (bbox_transform enc ex_rois gt_rois) labels (np_where (\<lambda>c. c > 0) labels)
        (?z, ?z) = Inr (bt, bw)"
    and t: "t = Arr2 (4 * num_classes) bt" and w: "w = Arr2 (4 * num_classes) bw"
    by (auto simp: compute_targets_def Let_def zeros_def bind_res_eq_Inr split: if_splits)
  have "list_all (\<lambda>r. length r = 4 * num_classes) ?z" by (simp add: list_all_length)
  with targets_loop_shape [OF loop, of "4 * num_classes"] t w show ?thesis
    by (simp add: nrows_def wf_arr2_def)
qed

section \<open>The loop of the target expander\<close>

lemma np_where_distinct [simp]: "distinct (np_where P xs)"
  by (simp add: np_where_def)

lemma np_where_set [simp]: "set (np_where P xs) = {i. i < length xs \<and> P (xs ! i)}"
  by (auto simp: np_where_def)

lemma np_where_length_le: "length (np_where P xs) \<le> length xs"
  unfolding np_where_def by (rule order_trans [OF length_filter_le]) simp

lemma targets_loop_run:
  assumes "distinct inds"
    and "\<forall>i\<in>set inds. i < n \<and> i < nrows targets \<and> length (rows targets ! i) = 4 \<and>
           4 * nat (py_int (clss ! i)) + 4 \<le> W"
    and "length bt = n" "length bw = n"
    and "list_all (\<lambda>r. length r = W) bt" "list_all (\<lambda>r. length r = W) bw"
  shows "targets_loop f32 targets clss inds (bt, bw) =
     Inr (map (\<lambda>i. if i \<in> set inds
                   then take (4 * nat (py_int (clss ! i))) (bt ! i) @ map f32 (rows targets ! i) @
                        drop (4 * nat (py_int (clss ! i)) + 4) (bt ! i)
                   else bt ! i) [0..<n],
          map (\<lambda>i. if i \<in> set inds
                   then take (4 * nat (py_int (clss ! i))) (bw ! i) @ replicate 4 1 @
                        drop (4 * nat (py_int (clss ! i)) + 4) (bw ! i)
                   else bw ! i) [0..<n])"
  using assms
proof (induction inds arbitrary: bt bw)
  case Nil
  then show ?case using map_nth [of bt] map_nth [of bw] by simp
next
  case (Cons ind inds)
  let ?c = "nat (py_int (clss ! ind))"
  let ?row = "take (4 * ?c) (bt ! ind) @ map f32 (rows targets ! ind) @ drop (4 * ?c + 4) (bt ! ind)"
  let ?wrow = "take (4 * ?c) (bw ! ind) @ replicate 4 1 @ drop (4 * ?c + 4) (bw ! ind)"
  from Cons.prems have ind: "ind < n" "ind < nrows targets" "length (rows targets ! ind) = 4"
    "4 * ?c + 4 \<le> W" "ind \<notin> set inds" "distinct inds"
    by simp_all
  have lb: "length (bt ! ind) = W" "length (bw ! ind) = W"
    using Cons.prems ind by (simp_all add: list_all_length)
  have g: "get_slice (rows targets ! ind) 0 4 = rows targets ! ind"
    using ind by (simp add: get_slice_def)
  have s: "set_slice (bt ! ind) (4 * ?c) (4 * ?c + 4)
             (map f32 (get_slice (rows targets ! ind) 0 4)) = Inr ?row"
    unfolding g using ind lb by (subst set_slice_fits) simp_all
  have f: "fill_slice (bw ! ind) (4 * ?c) (4 * ?c + 4) 1 = ?wrow"
    using ind lb by (subst fill_slice_fits) simp_all
  have step: "targets_loop f32 targets clss (ind # inds) (bt, bw) =
      targets_loop f32 targets clss inds (bt[ind := ?row], bw[ind := ?wrow])"
    using ind s f by (simp add: Let_def)
  have lr: "length ?row = W" "length ?wrow = W" using ind lb by simp_all
  have ih: "targets_loop f32 targets clss inds (bt[ind := ?row], bw[ind := ?wrow]) =
     Inr (map (\<lambda>i. if i \<in> set inds
                   then take (4 * nat (py_int (clss ! i))) (bt[ind := ?row] ! i) @ map f32 (rows targets ! i) @
                        drop (4 * nat (py_int (clss ! i)) + 4) (bt[ind := ?row] ! i)
                   else bt[ind := ?row] ! i) [0..<n],
          map (\<lambda>i. if i \<in> set inds
                   then take (4 * nat (py_int (clss ! i))) (bw[ind := ?wrow] ! i) @ replicate 4 1 @
                        drop (4 * nat (py_int (clss ! i)) + 4) (bw[ind := ?wrow] ! i)
                   else bw[ind := ?wrow] ! i) [0..<n])"
  proof (rule Cons.IH)
    show "distinct inds" by (rule ind)
    show "\<forall>i\<in>set inds. i < n \<and> i < nrows targets \<and> length (rows targets ! i) = 4 \<and>
           4 * nat (py_int (clss ! i)) + 4 \<le> W"
      using Cons.prems(2) by simp
    show "length (bt[ind := ?row]) = n" "length (bw[ind := ?wrow]) = n"
      using Cons.prems by simp_all
    show "list_all (\<lambda>r. length r = W) (bt[ind := ?row])"
      using Cons.prems(5) lr(1) unfolding list_all_length
      by (metis length_list_update nth_list_update_eq nth_list_update_neq)
    show "list_all (\<lambda>r. length r = W) (bw[ind := ?wrow])"
      using Cons.prems(6) lr(2) unfolding list_all_length
      by (metis length_list_update nth_list_update_eq nth_list_update_neq)
  qed
  have eq1: "\<And>i. i < n \<Longrightarrow>
      (if i \<in> set inds
       then take (4 * nat (py_int (clss ! i))) (bt[ind := ?row] ! i) @ map f32 (rows targets ! i) @
            drop (4 * nat (py_int (clss ! i)) + 4) (bt[ind := ?row] ! i)
       else bt[ind := ?row] ! i) =
      (if i \<in> set (ind # inds)
       then take (4 * nat (py_int (clss ! i))) (bt ! i) @ map f32 (rows targets ! i) @
            drop (4 * nat (py_int (clss ! i)) + 4) (bt ! i)
       else bt ! i)"
    using ind Cons.prems(3) by (auto simp: nth_list_update)
  have eq2: "\<And>i. i < n \<Longrightarrow>
      (if i \<in> set inds
       then take (4 * nat (py_int (clss ! i))) (bw[ind := ?wrow] ! i) @ replicate 4 1 @
            drop (4 * nat (py_int (clss ! i)) + 4) (bw[ind := ?wrow] ! i)
       else bw[ind := ?wrow] ! i) =
      (if i \<in> set (ind # inds)
       then take (4 * nat (py_int (clss ! i))) (bw ! i) @ replicate 4 1 @
            drop (4 * nat (py_int (clss ! i)) + 4) (bw ! i)
       else bw ! i)"
    using ind Cons.prems(4) by (auto simp: nth_list_update)
  show ?case
    unfolding step ih using eq1 eq2 by (simp cong: map_cong)
qed


lemma delta_row_length [simp]: "length (delta_row d) = 4"
  by (cases d) simp

lemma py_int_pos: "0 < x \<Longrightarrow> x < real K \<Longrightarrow> 4 * nat (py_int x) + 4 \<le> 4 * K"
proof -
  assume a: "0 < x" "x < real K"
  then have "\<lfloor>x\<rfloor> < int K" by (simp add: floor_less_iff)
  moreover have "0 \<le> \<lfloor>x\<rfloor>" using a by simp
  ultimately have "nat \<lfloor>x\<rfloor> < K" by linarith
  with a show ?thesis by (simp add: py_int_def)
qed

lemma py_int_of_nat [simp]: "nat (py_int (real c)) = c"
  by (simp add: py_int_def)

lemma compute_targets_run:
  assumes "nrows ex_rois = length labels" "nrows gt_rois = length labels"
    and "ncols ex_rois = 4" "ncols gt_rois = 4"
    and "\<forall>i<length labels. labels ! i < real num_classes"
  shows "compute_targets f32 enc ex_rois gt_rois labels num_classes =
     Inr (Arr2 (4 * num_classes)
            (map (\<lambda>i. if 0 < labels ! i
                      then replicate (4 * nat (py_int (labels ! i))) 0 @
                           map f32 (delta_row (enc (rows ex_rois ! i) (rows gt_rois ! i))) @
                           replicate (4 * num_classes - (4 * nat (py_int (labels ! i)) + 4)) 0
                      else replicate (4 * num_classes) 0) [0..<length labels]),
          Arr2 (4 * num_classes)
            (map (\<lambda>i. if 0 < labels ! i
                      then replicate (4 * nat (py_int (labels ! i))) 0 @ replicate 4 1 @
                           replicate (4 * num_classes - (4 * nat (py_int (labels ! i)) + 4)) 0
                      else replicate (4 * num_classes) 0) [0..<length labels]))"
proof -
  let ?N = "length labels" and ?W = "4 * num_classes"
  let ?targets = "bbox_transform enc ex_rois gt_rois"
  let ?inds = "np_where (\<lambda>c. c > 0) labels"
  let ?z = "replicate ?N (replicate ?W (0::real))"
  have len: "length (rows ex_rois) = ?N" "length (rows gt_rois) = ?N"
    using assms by (simp_all add: nrows_def)
  have nt: "nrows ?targets = ?N" using len by (simp add: bbox_transform_def nrows_def)
  have rt: "\<And>i. i < ?N \<Longrightarrow> rows ?targets ! i = delta_row (enc (rows ex_rois ! i) (rows gt_rois ! i))"
    using len by (simp add: bbox_transform_def)
  have loop: "targets_loop f32 ?targets labels ?inds (?z, ?z) =
     Inr (map (\<lambda>i. if i \<in> set ?inds
                   then take (4 * nat (py_int (labels ! i))) (?z ! i) @ map f32 (rows ?targets ! i) @
                        drop (4 * nat (py_int (labels ! i)) + 4) (?z ! i)
                   else ?z ! i) [0..<?N],
          map (\<lambda>i. if i \<in> set ?inds
                   then take (4 * nat (py_int (labels ! i))) (?z ! i) @ replicate 4 1 @
                        drop (4 * nat (py_int (labels ! i)) + 4) (?z ! i)
                   else ?z ! i) [0..<?N])"
  proof (rule targets_loop_run [where W = ?W])
    show "distinct ?inds" by simp
    show "\<forall>i\<in>set ?inds. i < ?N \<and> i < nrows ?targets \<and> length (rows ?targets ! i) = 4 \<and>
         4 * nat (py_int (labels ! i)) + 4 \<le> ?W"
      using assms(5) nt rt by (auto intro: py_int_pos)
    show "length ?z = ?N" by simp
    show "length ?z = ?N" by simp
    show "list_all (\<lambda>r. length r = ?W) ?z" by (simp add: list_all_length)
    show "list_all (\<lambda>r. length r = ?W) ?z" by (simp add: list_all_length)
  qed
  have fit: "\<And>i. i < ?N \<Longrightarrow> 0 < labels ! i \<Longrightarrow> 4 * nat (py_int (labels ! i)) + 4 \<le> ?W"
    using assms(5) by (auto intro: py_int_pos)
  have t: "map (\<lambda>i. if i \<in> set ?inds
                   then take (4 * nat (py_int (labels ! i))) (?z ! i) @ map f32 (rows ?targets ! i) @
                        drop (4 * nat (py_int (labels ! i)) + 4) (?z ! i)
                   else ?z ! i) [0..<?N] =
      map (\<lambda>i. if 0 < labels ! i
                      then replicate (4 * nat (py_int (labels ! i))) 0 @
                           map f32 (delta_row (enc (rows ex_rois ! i) (rows gt_rois ! i))) @
                           replicate (?W - (4 * nat (py_int (labels ! i)) + 4)) 0
                      else replicate ?W 0) [0..<?N]"
  proof (rule map_cong [OF refl])
    fix i assume "i \<in> set [0..<?N]"
    then have i: "i < ?N" by simp
    show "(if i \<in> set ?inds
           then take (4 * nat (py_int (labels ! i))) (?z ! i) @ map f32 (rows ?targets ! i) @
                drop (4 * nat (py_int (labels ! i)) + 4) (?z ! i)
           else ?z ! i) =
          (if 0 < labels ! i
           then replicate (4 * nat (py_int (labels ! i))) 0 @
                map f32 (delta_row (enc (rows ex_rois ! i) (rows gt_rois ! i))) @
                replicate (?W - (4 * nat (py_int (labels ! i)) + 4)) 0
           else replicate ?W 0)"
      using i rt [OF i] fit [OF i] by (auto simp: min_def)
  qed
  have w: "map (\<lambda>i. if i \<in> set ?inds
                   then take (4 * nat (py_int (labels ! i))) (?z ! i) @ replicate 4 1 @
                        drop (4 * nat (py_int (labels ! i)) + 4) (?z ! i)
                   else ?z ! i) [0..<?N] =
      map (\<lambda>i. if 0 < labels ! i
                      then replicate (4 * nat (py_int (labels ! i))) 0 @ replicate 4 1 @
                           replicate (?W - (4 * nat (py_int (labels ! i)) + 4)) 0
                      else replicate ?W 0) [0..<?N]"
  proof (rule map_cong [OF refl])
    fix i assume "i \<in> set [0..<?N]"
    then have i: "i < ?N" by simp
    show "(if i \<in> set ?inds
           then take (4 * nat (py_int (labels ! i))) (?z ! i) @ replicate 4 1 @
                drop (4 * nat (py_int (labels ! i)) + 4) (?z ! i)
           else ?z ! i) =
          (if 0 < labels ! i
           then replicate (4 * nat (py_int (labels ! i))) 0 @ replicate 4 1 @
                replicate (?W - (4 * nat (py_int (labels ! i)) + 4)) 0
           else replicate ?W 0)"
      using i fit [OF i] by (auto simp: min_def)
  qed
  show ?thesis
    using assms(1-4) unfolding compute_targets_def Let_def zeros_def arr2.sel loop t w
    by simp
qed

section \<open>First maximum and the loop of the decoder\<close>

lemma argmax_from_spec:
  assumes "b < length pre" "bv = pre ! b" "\<forall>j<length pre. pre ! j \<le> bv" "\<forall>j<b. pre ! j < bv"
    and "i = length pre"
  shows "argmax_from b bv i xs < length (pre @ xs) \<and>
         (\<forall>j<length (pre @ xs). (pre @ xs) ! j \<le> (pre @ xs) ! argmax_from b bv i xs) \<and>
         (\<forall>j<argmax_from b bv i xs. (pre @ xs) ! j < (pre @ xs) ! argmax_from b bv i xs)"
  using assms
proof (induction xs arbitrary: b bv i pre)
  case Nil
  then show ?case by simp
next
  case (Cons x xs)
  show ?case
  proof (cases "bv < x")
    case True
    have "argmax_from i x (Suc i) xs < length ((pre @ [x]) @ xs) \<and>
         (\<forall>j<length ((pre @ [x]) @ xs). ((pre @ [x]) @ xs) ! j \<le> ((pre @ [x]) @ xs) ! argmax_from i x (Suc i) xs) \<and>
         (\<forall>j<argmax_from i x (Suc i) xs. ((pre @ [x]) @ xs) ! j < ((pre @ [x]) @ xs) ! argmax_from i x (Suc i) xs)"
    proof (rule Cons.IH)
      show "i < length (pre @ [x])" using Cons.prems by simp
      show "x = (pre @ [x]) ! i" using Cons.prems by simp
      show "\<forall>j<length (pre @ [x]). (pre @ [x]) ! j \<le> x"
        using Cons.prems True by (auto simp: nth_append less_Suc_eq intro: less_imp_le order_le_less_trans)
      show "\<forall>j<i. (pre @ [x]) ! j < x"
        using Cons.prems True by (auto simp: nth_append intro: order_le_less_trans)
      show "Suc i = length (pre @ [x])" using Cons.prems by simp
    qed
    with True show ?thesis by simp
  next
    case False
    have "argmax_from b bv (Suc i) xs < length ((pre @ [x]) @ xs) \<and>
         (\<forall>j<length ((pre @ [x]) @ xs). ((pre @ [x]) @ xs) ! j \<le> ((pre @ [x]) @ xs) ! argmax_from b bv (Suc i) xs) \<and>
         (\<forall>j<argmax_from b bv (Suc i) xs. ((pre @ [x]) @ xs) ! j < ((pre @ [x]) @ xs) ! argmax_from b bv (Suc i) xs)"
    proof (rule Cons.IH)
      show "b < length (pre @ [x])" using Cons.prems by simp
      show "bv = (pre @ [x]) ! b" using Cons.prems by (simp add: nth_append)
      show "\<forall>j<length (pre @ [x]). (pre @ [x]) ! j \<le> bv"
        using Cons.prems False by (auto simp: nth_append less_Suc_eq)
      show "\<forall>j<b. (pre @ [x]) ! j < bv"
        using Cons.prems by (auto simp: nth_append)
      show "Suc i = length (pre @ [x])" using Cons.prems by simp
    qed
    with False show ?thesis by simp
  qed
qed

lemma argmax_spec:
  assumes "xs \<noteq> []"
  shows "argmax xs < length xs \<and> (\<forall>j<length xs. xs ! j \<le> xs ! argmax xs) \<and>
         (\<forall>j<argmax xs. xs ! j < xs ! argmax xs)"
proof -
  from assms obtain x r where xs: "xs = x # r" by (cases xs) auto
  have "argmax_from 0 x 1 r < length ([x] @ r) \<and>
         (\<forall>j<length ([x] @ r). ([x] @ r) ! j \<le> ([x] @ r) ! argmax_from 0 x 1 r) \<and>
         (\<forall>j<argmax_from 0 x 1 r. ([x] @ r) ! j < ([x] @ r) ! argmax_from 0 x 1 r)"
    by (rule argmax_from_spec) simp_all
  then show ?thesis by (simp add: xs argmax_def)
qed

lemma amax_argmax:
  assumes "xs \<noteq> []"
  shows "amax xs = xs ! argmax xs"
proof -
  from assms obtain x r where xs: "xs = x # r" by (cases xs) auto
  have "amax xs = Max (set xs)" unfolding xs amax_def by (simp add: Max.set_eq_fold [symmetric])
  also have "\<dots> = xs ! argmax xs"
  proof (rule Max_eqI)
    show "finite (set xs)" by simp
    show "xs ! argmax xs \<in> set xs" using argmax_spec [OF assms] by simp
    fix y assume "y \<in> set xs"
    then obtain j where "j < length xs" "xs ! j = y" by (auto simp: in_set_conv_nth)
    with argmax_spec [OF assms] show "y \<le> xs ! argmax xs" by auto
  qed
  finally show ?thesis .
qed

lemma decode_loop_run:
  assumes "distinct is"
    and "\<forall>i\<in>set is. i < n \<and> i < length classes \<and> classes ! i * 4 + 4 \<le> length (rows boxes ! i)"
    and "length fb = n" "list_all (\<lambda>r. length r = 4) fb"
  shows "decode_loop boxes classes is fb =
     Inr (map (\<lambda>i. if i \<in> set is
                   then get_slice (rows boxes ! i) (classes ! i * 4) (classes ! i * 4 + 4)
                   else fb ! i) [0..<n])"
  using assms
proof (induction "is" arbitrary: fb)
  case Nil
  then show ?case using map_nth [of fb] by simp
next
  case (Cons i "is")
  let ?v = "get_slice (rows boxes ! i) (classes ! i * 4) (classes ! i * 4 + 4)"
  from Cons.prems have i: "i < n" "i < length classes" "classes ! i * 4 + 4 \<le> length (rows boxes ! i)"
    "i \<notin> set is" "distinct is"
    by simp_all
  have lv: "length ?v = 4" using i by (simp add: get_slice_def)
  have lf: "length (fb ! i) = 4" using Cons.prems i by (simp add: list_all_length)
  have s: "set_slice (fb ! i) 0 4 ?v = Inr ?v"
    using lv lf by (subst set_slice_fits) simp_all
  have step: "decode_loop boxes classes (i # is) fb = decode_loop boxes classes is (fb[i := ?v])"
    using i s by (simp add: Let_def)
  have ih: "decode_loop boxes classes is (fb[i := ?v]) =
     Inr (map (\<lambda>k. if k \<in> set is
                   then get_slice (rows boxes ! k) (classes ! k * 4) (classes ! k * 4 + 4)
                   else fb[i := ?v] ! k) [0..<n])"
  proof (rule Cons.IH)
    show "distinct is" by (rule i)
    show "\<forall>i\<in>set is. i < n \<and> i < length classes \<and> classes ! i * 4 + 4 \<le> length (rows boxes ! i)"
      using Cons.prems(2) by simp
    show "length (fb[i := ?v]) = n" using Cons.prems by simp
    show "list_all (\<lambda>r. length r = 4) (fb[i := ?v])"
      using Cons.prems(4) lv unfolding list_all_length
      by (metis length_list_update nth_list_update_eq nth_list_update_neq)
  qed
  have eq: "\<And>k. k < n \<Longrightarrow>
      (if k \<in> set is
       then get_slice (rows boxes ! k) (classes ! k * 4) (classes ! k * 4 + 4)
       else fb[i := ?v] ! k) =
      (if k \<in> set (i # is)
       then get_slice (rows boxes ! k) (classes ! k * 4) (classes ! k * 4 + 4)
       else fb ! k)"
    using i Cons.prems(3) by (auto simp: nth_list_update)
  show ?case unfolding step ih using eq by (simp cong: map_cong)
qed


section \<open>The matching and the sampling stage\<close>

lemma fold_const_length [simp]: "length (fold (\<lambda>i r. r[i := x]) inds v) = length v"
  by (induction inds arbitrary: v) simp_all

lemma fold_const_nth:
  "j < length v \<Longrightarrow> fold (\<lambda>i r. r[i := x]) inds v ! j = (if j \<in> set inds then x else v ! j)"
  by (induction inds arbitrary: v) (auto simp: nth_list_update)


lemma random_choice_Inr:
  assumes "is_shuffle shuffle" "random_choice shuffle a n = Inr r"
  shows "set r \<subseteq> set a \<and> (distinct a \<longrightarrow> distinct r) \<and> int (length r) = n \<and> a \<noteq> []"
proof -
  from assms(1) have m: "mset (shuffle a) = mset a" by (simp add: is_shuffle_def)
  have s: "set (shuffle a) = set a" using m by (rule mset_eq_setD)
  have l: "length (shuffle a) = length a" using m by (rule mset_eq_length)
  have d: "distinct (shuffle a) = distinct a" using m by (rule mset_eq_imp_distinct_iff)
  from assms(2) have r: "r = take (nat n) (shuffle a)"
    by (simp add: random_choice_def split: if_splits)
  from assms(2) have n: "0 \<le> n" "n \<le> int (length a)" "a \<noteq> []"
    by (simp_all add: random_choice_def split: if_splits)
  have "set (take (nat n) (shuffle a)) \<subseteq> set (shuffle a)" by (rule set_take_subset)
  then have 1: "set r \<subseteq> set a" unfolding r s .
  have 2: "distinct a \<longrightarrow> distinct r" unfolding r using d by simp
  have "length r = nat n" unfolding r using l n by simp
  then have 3: "int (length r) = n" using n by simp
  from 1 2 3 n(3) show ?thesis by blast
qed

lemma random_choice_ok:
  assumes "a \<noteq> []" "0 \<le> n" "n \<le> int (length a)"
  shows "random_choice shuffle a n = Inr (take (nat n) (shuffle a))"
  using assms by (simp add: random_choice_def)

lemma overlaps_rows:
  "rows (bbox_overlaps iou (slice_cols rois 4) (slice_cols gt_boxes 4)) =
     map (\<lambda>r. map (iou (take 4 r)) (map (take 4) (rows gt_boxes))) (rows rois)"
  by (simp add: bbox_overlaps_def slice_cols_def)

lemma overlaps_shape:
  "ncols (bbox_overlaps iou (slice_cols rois 4) (slice_cols gt_boxes 4)) = nrows gt_boxes"
  "nrows (bbox_overlaps iou (slice_cols rois 4) (slice_cols gt_boxes 4)) = nrows rois"
  by (simp_all add: bbox_overlaps_def slice_cols_def nrows_def)


lemma encode_match_Inr:
  assumes "encode_match iou gt_boxes rois = Inr (ga, mo, lab)"
  shows "0 < nrows gt_boxes \<and> 4 < ncols gt_boxes \<and>
         length ga = nrows rois \<and> length mo = nrows rois \<and> length lab = nrows rois \<and>
         (\<forall>i<nrows rois.
            ga ! i = argmax (rows (bbox_overlaps iou (slice_cols rois 4) (slice_cols gt_boxes 4)) ! i) \<and>
            ga ! i < nrows gt_boxes \<and>
            mo ! i = rows (bbox_overlaps iou (slice_cols rois 4) (slice_cols gt_boxes 4)) ! i ! (ga ! i) \<and>
            lab ! i = rows gt_boxes ! (ga ! i) ! 4)"
proof -
  let ?ov = "bbox_overlaps iou (slice_cols rois 4) (slice_cols gt_boxes 4)"
  from assms obtain ga' where a: "argmax_axis1 ?ov = Inr ga'"
    and rest: "bind_res (getitem_pairs ?ov [0..<nrows rois] ga') (\<lambda>max_overlaps.
         bind_res (getitem_rows_col gt_boxes ga' 4) (\<lambda>labels.
         Inr (ga', max_overlaps, labels))) = Inr (ga, mo, lab)"
    unfolding encode_match_def Let_def bind_res_eq_Inr by blast
  from rest obtain mo' where p: "getitem_pairs ?ov [0..<nrows rois] ga' = Inr mo'"
    and rest2: "bind_res (getitem_rows_col gt_boxes ga' 4) (\<lambda>labels.
         Inr (ga', mo', labels)) = Inr (ga, mo, lab)"
    unfolding bind_res_eq_Inr by blast
  from rest2 obtain lab' where l: "getitem_rows_col gt_boxes ga' 4 = Inr lab'"
    and fin: "Inr (ga', mo', lab') = (Inr (ga, mo, lab) :: error + nat list \<times> real list \<times> real list)"
    unfolding bind_res_eq_Inr by blast
  from fin have eqs: "ga' = ga" "mo' = mo" "lab' = lab" by simp_all
  note a = a [unfolded eqs] and p = p [unfolded eqs] and l = l [unfolded eqs]
  from a have g: "0 < nrows gt_boxes"
    by (simp add: argmax_axis1_def overlaps_shape split: if_splits)
  from a have ga: "ga = map argmax (rows ?ov)"
    by (simp add: argmax_axis1_def split: if_splits)
  from p have lga: "length ga = nrows rois"
    by (simp add: getitem_pairs_def split: if_splits)
  from p lga have mo: "mo = map2 (\<lambda>i j. rows ?ov ! i ! j) [0..<nrows rois] ga"
    by (simp add: getitem_pairs_def split: if_splits)
  from p lga have inr: "list_all2 (\<lambda>i j. i < nrows ?ov \<and> j < ncols ?ov) [0..<nrows rois] ga"
    by (simp add: getitem_pairs_def split: if_splits)
  from l have c: "4 < ncols gt_boxes"
    by (simp add: getitem_rows_col_def split: if_splits)
  from l c have "bind_res (getitem_fancy (rows gt_boxes) ga) (\<lambda>rs. Inr (map (\<lambda>r. r ! 4) rs)) = Inr lab"
    by (simp add: getitem_rows_col_def)
  then obtain rs where rs: "getitem_fancy (rows gt_boxes) ga = Inr rs" and lab0: "lab = map (\<lambda>r. r ! 4) rs"
    unfolding bind_res_eq_Inr by auto
  from rs have "rs = map (\<lambda>i. rows gt_boxes ! i) ga"
    by (simp add: getitem_fancy_def split: if_splits)
  with lab0 have lab: "lab = map (\<lambda>r. r ! 4) (map (\<lambda>i. rows gt_boxes ! i) ga)" by simp
  have "\<forall>i<nrows rois. ga ! i = argmax (rows ?ov ! i) \<and> ga ! i < nrows gt_boxes \<and>
      mo ! i = rows ?ov ! i ! (ga ! i) \<and> lab ! i = rows gt_boxes ! (ga ! i) ! 4"
  proof (intro allI impI)
    fix i assume i: "i < nrows rois"
    have lov: "length (rows ?ov) = nrows rois" using overlaps_shape(2) [of iou rois gt_boxes]
      by (simp add: nrows_def)
    have a: "ga ! i = argmax (rows ?ov ! i)"
      unfolding ga using i lov by simp
    have b: "ga ! i < nrows gt_boxes"
      using inr i lga by (simp add: list_all2_conv_all_nth overlaps_shape)
    have m: "mo ! i = rows ?ov ! i ! (ga ! i)" unfolding mo using i lga by simp
    have e: "lab ! i = rows gt_boxes ! (ga ! i) ! 4" unfolding lab using i lga by simp
    from a b m e show "ga ! i = argmax (rows ?ov ! i) \<and> ga ! i < nrows gt_boxes \<and>
      mo ! i = rows ?ov ! i ! (ga ! i) \<and> lab ! i = rows gt_boxes ! (ga ! i) ! 4"
      by blast
  qed
  moreover have "length mo = nrows rois" unfolding mo using lga by simp
  moreover have "length lab = nrows rois" unfolding lab using lga by simp
  ultimately show ?thesis using g c lga by blast
qed

lemma encode_match_ok:
  assumes "0 < nrows gt_boxes" "4 < ncols gt_boxes"
  shows "\<exists>ga mo lab. encode_match iou gt_boxes rois = Inr (ga, mo, lab)"
proof -
  let ?ov = "bbox_overlaps iou (slice_cols rois 4) (slice_cols gt_boxes 4)"
  let ?ga = "map argmax (rows ?ov)"
  have lov: "length (rows ?ov) = nrows rois" using overlaps_shape(2) [of iou rois gt_boxes]
    by (simp add: nrows_def)
  have lga: "length ?ga = nrows rois" using lov by simp
  have row: "\<And>i. i < nrows rois \<Longrightarrow> length (rows ?ov ! i) = nrows gt_boxes"
    by (simp add: overlaps_rows nrows_def)
  have am: "\<And>i. i < nrows rois \<Longrightarrow> ?ga ! i < nrows gt_boxes"
  proof -
    fix i assume i: "i < nrows rois"
    with row [OF i] assms(1) have "rows ?ov ! i \<noteq> []" by auto
    from argmax_spec [OF this] have "argmax (rows ?ov ! i) < length (rows ?ov ! i)" by blast
    with row [OF i] i lov show "?ga ! i < nrows gt_boxes" by simp
  qed
  have a: "argmax_axis1 ?ov = Inr ?ga"
    using assms(1) by (simp add: argmax_axis1_def overlaps_shape)
  have "list_all2 (\<lambda>i j. i < nrows ?ov \<and> j < ncols ?ov) [0..<nrows rois] ?ga"
    unfolding list_all2_conv_all_nth using lga am by (simp add: overlaps_shape)
  then have p: "getitem_pairs ?ov [0..<nrows rois] ?ga =
      Inr (map2 (\<lambda>i j. rows ?ov ! i ! j) [0..<nrows rois] ?ga)"
    using lga by (simp add: getitem_pairs_def)
  have "list_all (\<lambda>i. i < length (rows gt_boxes)) ?ga"
    unfolding list_all_length using am lga by (simp add: nrows_def)
  then have l: "getitem_rows_col gt_boxes ?ga 4 =
      Inr (map (\<lambda>r. r ! 4) (map (\<lambda>i. rows gt_boxes ! i) ?ga))"
    using assms(2) by (simp add: getitem_rows_col_def getitem_fancy_def)
  have "encode_match iou gt_boxes rois =
      Inr (?ga, map2 (\<lambda>i j. rows ?ov ! i ! j) [0..<nrows rois] ?ga,
           map (\<lambda>r. r ! 4) (map (\<lambda>i. rows gt_boxes ! i) ?ga))"
    unfolding encode_match_def Let_def by (simp only: a p l bind_res_Inr)
  then show ?thesis by blast
qed

text \<open>
  The foreground target, when the configuration is sound: \<^verbatim>\<open>rois_per_image\<close> is not
  negative and is a double, and the fraction lies between 0 and 1.
\<close>

lemma fg_target_bounds:
  assumes "is_rounding f64"
    and "f64 (real_of_int (rois_per_image cfg)) = real_of_int (rois_per_image cfg)"
    and "0 \<le> rois_per_image cfg" "0 \<le> fg_roi_fraction cfg" "fg_roi_fraction cfg \<le> 1"
  shows "0 \<le> fg_target cfg f64 mo \<and> fg_target cfg f64 mo \<le> int (length (fg_eligible cfg mo)) \<and>
     fg_target cfg f64 mo
       \<le> \<lfloor>f64 (f64 (real_of_int (rois_per_image cfg)) * fg_roi_fraction cfg)\<rfloor> \<and>
     fg_target cfg f64 mo \<le> rois_per_image cfg"
proof -
  let ?n = "length (fg_eligible cfg mo)"
  let ?p = "real_of_int (rois_per_image cfg) * fg_roi_fraction cfg"
  let ?x = "f64 (f64 (real_of_int (rois_per_image cfg)) * fg_roi_fraction cfg)"
  from assms(1) have z: "f64 0 = 0" and m: "mono f64" by (simp_all add: is_rounding_def)
  have p0: "0 \<le> ?p" using assms(3,4) by simp
  have p1: "?p \<le> real_of_int (rois_per_image cfg)" using assms(3,4,5) by (simp add: mult_left_le)
  have x0: "0 \<le> ?x" using monoD [OF m p0] by (simp add: z assms(2))
  have x1: "?x \<le> real_of_int (rois_per_image cfg)" using monoD [OF m p1] by (simp add: assms(2))
  have m0: "0 \<le> min (real ?n) ?x" using x0 by simp
  then have t: "fg_target cfg f64 mo = \<lfloor>min (real ?n) ?x\<rfloor>" by (simp add: fg_target_def py_int_def)
  have 1: "0 \<le> fg_target cfg f64 mo" unfolding t using m0 by simp
  have "\<lfloor>min (real ?n) ?x\<rfloor> \<le> \<lfloor>real ?n\<rfloor>" by (rule floor_mono) simp
  then have 2: "fg_target cfg f64 mo \<le> int ?n" unfolding t by simp
  have 3: "fg_target cfg f64 mo \<le> \<lfloor>?x\<rfloor>" unfolding t by (rule floor_mono) simp
  have "\<lfloor>?x\<rfloor> \<le> \<lfloor>real_of_int (rois_per_image cfg)\<rfloor>" using x1 by (rule floor_mono)
  with 3 have 4: "fg_target cfg f64 mo \<le> rois_per_image cfg" by simp
  from 1 2 3 4 show ?thesis by blast
qed


lemma encode_sample_unfold:
  "encode_sample cfg f64 shuffle_fg shuffle_bg mo lab =
     bind_res (if fg_eligible cfg mo \<noteq> []
               then random_choice shuffle_fg (fg_eligible cfg mo) (fg_target cfg f64 mo)
               else Inr (fg_eligible cfg mo)) (\<lambda>fg.
     bind_res (setitem_const lab (bg_eligible cfg mo) 0) (\<lambda>labels.
     bind_res (if bg_eligible cfg mo \<noteq> [] \<and>
                  rois_per_image cfg - fg_target cfg f64 mo < int (length (bg_eligible cfg mo))
               then random_choice shuffle_bg (bg_eligible cfg mo)
                      (rois_per_image cfg - fg_target cfg f64 mo)
               else Inr (bg_eligible cfg mo)) (\<lambda>bg.
     Inr (labels, fg, bg, fg @ bg))))"
  by (simp add: encode_sample_def Let_def fg_eligible_def bg_eligible_def fg_target_def)

lemma encode_sample_Inr:
  assumes "encode_sample cfg f64 shuffle_fg shuffle_bg mo lab = Inr (labels, fg, bg, keep)"
  shows "keep = fg @ bg \<and>
     setitem_const lab (bg_eligible cfg mo) 0 = Inr labels \<and>
     (fg_eligible cfg mo = [] \<longrightarrow> fg = []) \<and>
     (fg_eligible cfg mo \<noteq> [] \<longrightarrow>
        random_choice shuffle_fg (fg_eligible cfg mo) (fg_target cfg f64 mo) = Inr fg) \<and>
     (bg_eligible cfg mo \<noteq> [] \<and>
        rois_per_image cfg - fg_target cfg f64 mo < int (length (bg_eligible cfg mo)) \<longrightarrow>
        random_choice shuffle_bg (bg_eligible cfg mo) (rois_per_image cfg - fg_target cfg f64 mo) = Inr bg) \<and>
     (\<not> (bg_eligible cfg mo \<noteq> [] \<and>
        rois_per_image cfg - fg_target cfg f64 mo < int (length (bg_eligible cfg mo))) \<longrightarrow>
        bg = bg_eligible cfg mo)"
proof -
  let ?F = "if fg_eligible cfg mo \<noteq> []
               then random_choice shuffle_fg (fg_eligible cfg mo) (fg_target cfg f64 mo)
               else Inr (fg_eligible cfg mo)"
  let ?B = "if bg_eligible cfg mo \<noteq> [] \<and>
                  rois_per_image cfg - fg_target cfg f64 mo < int (length (bg_eligible cfg mo))
               then random_choice shuffle_bg (bg_eligible cfg mo)
                      (rois_per_image cfg - fg_target cfg f64 mo)
               else Inr (bg_eligible cfg mo)"
  from assms obtain fg' where f: "?F = Inr fg'"
    and r1: "bind_res (setitem_const lab (bg_eligible cfg mo) 0) (\<lambda>labels.
       bind_res ?B (\<lambda>bg. Inr (labels, fg', bg, fg' @ bg))) = Inr (labels, fg, bg, keep)"
    unfolding encode_sample_unfold bind_res_eq_Inr by blast
  from r1 obtain labels' where l: "setitem_const lab (bg_eligible cfg mo) 0 = Inr labels'"
    and r2: "bind_res ?B (\<lambda>bg. Inr (labels', fg', bg, fg' @ bg)) = Inr (labels, fg, bg, keep)"
    unfolding bind_res_eq_Inr by blast
  from r2 obtain bg' where b: "?B = Inr bg'"
    and r3: "Inr (labels', fg', bg', fg' @ bg') =
       (Inr (labels, fg, bg, keep) :: error + real list \<times> nat list \<times> nat list \<times> nat list)"
    unfolding bind_res_eq_Inr by blast
  from r3 have eqs: "labels' = labels" "fg' = fg" "bg' = bg" "keep = fg @ bg" by auto
  note f = f [unfolded eqs] and l = l [unfolded eqs] and b = b [unfolded eqs]
  have 1: "fg_eligible cfg mo = [] \<longrightarrow> fg = []"
    using f by (cases "fg_eligible cfg mo = []") auto
  have 2: "fg_eligible cfg mo \<noteq> [] \<longrightarrow>
        random_choice shuffle_fg (fg_eligible cfg mo) (fg_target cfg f64 mo) = Inr fg"
    using f by (cases "fg_eligible cfg mo = []") auto
  have 3: "bg_eligible cfg mo \<noteq> [] \<and>
        rois_per_image cfg - fg_target cfg f64 mo < int (length (bg_eligible cfg mo)) \<longrightarrow>
        random_choice shuffle_bg (bg_eligible cfg mo) (rois_per_image cfg - fg_target cfg f64 mo) = Inr bg"
    using b by (cases "bg_eligible cfg mo \<noteq> [] \<and>
        rois_per_image cfg - fg_target cfg f64 mo < int (length (bg_eligible cfg mo))") auto
  have 4: "\<not> (bg_eligible cfg mo \<noteq> [] \<and>
        rois_per_image cfg - fg_target cfg f64 mo < int (length (bg_eligible cfg mo))) \<longrightarrow>
        bg = bg_eligible cfg mo"
    using b by (cases "bg_eligible cfg mo \<noteq> [] \<and>
        rois_per_image cfg - fg_target cfg f64 mo < int (length (bg_eligible cfg mo))") auto
  from eqs(4) l 1 2 3 4 show ?thesis by blast
qed

lemma eligible_sets:
  "set (fg_eligible cfg mo) = {i. i < length mo \<and> fg_threshold cfg \<le> mo ! i}"
  "set (bg_eligible cfg mo) = {i. i < length mo \<and> mo ! i < bg_threshold cfg}"
  "distinct (fg_eligible cfg mo)" "distinct (bg_eligible cfg mo)"
  by (simp_all add: fg_eligible_def bg_eligible_def)

lemma encode_sample_kept:
  assumes "is_shuffle shuffle_fg" "is_shuffle shuffle_bg"
    and "encode_sample cfg f64 shuffle_fg shuffle_bg mo lab = Inr (labels, fg, bg, keep)"
  shows "keep = fg @ bg \<and> set fg \<subseteq> set (fg_eligible cfg mo) \<and>
         set bg \<subseteq> set (bg_eligible cfg mo) \<and> distinct fg \<and> distinct bg"
proof -
  note s = encode_sample_Inr [OF assms(3)]
  have f: "set fg \<subseteq> set (fg_eligible cfg mo) \<and> distinct fg"
  proof (cases "fg_eligible cfg mo = []")
    case True
    with s show ?thesis by simp
  next
    case False
    with s have "random_choice shuffle_fg (fg_eligible cfg mo) (fg_target cfg f64 mo) = Inr fg" by blast
    from random_choice_Inr [OF assms(1) this] eligible_sets(3) [of cfg mo] show ?thesis by blast
  qed
  have b: "set bg \<subseteq> set (bg_eligible cfg mo) \<and> distinct bg"
  proof (cases "bg_eligible cfg mo \<noteq> [] \<and>
        rois_per_image cfg - fg_target cfg f64 mo < int (length (bg_eligible cfg mo))")
    case True
    with s have "random_choice shuffle_bg (bg_eligible cfg mo)
        (rois_per_image cfg - fg_target cfg f64 mo) = Inr bg" by blast
    from random_choice_Inr [OF assms(2) this] eligible_sets(4) [of cfg mo] show ?thesis by blast
  next
    case False
    with s have "bg = bg_eligible cfg mo" by blast
    with eligible_sets(4) [of cfg mo] show ?thesis by simp
  qed
  from s f b show ?thesis by blast
qed

lemma encode_sample_labels:
  assumes "encode_sample cfg f64 shuffle_fg shuffle_bg mo lab = Inr (labels, fg, bg, keep)"
  shows "length labels = length lab \<and>
     (\<forall>i<length lab. i < length mo \<longrightarrow>
        labels ! i = (if mo ! i < bg_threshold cfg then 0 else lab ! i))"
proof -
  from encode_sample_Inr [OF assms]
  have "setitem_const lab (bg_eligible cfg mo) 0 = Inr labels" by blast
  then have l: "labels = fold (\<lambda>i r. r[i := 0]) (bg_eligible cfg mo) lab"
    by (simp add: setitem_const_def split: if_splits)
  have "\<forall>i<length lab. i < length mo \<longrightarrow>
        labels ! i = (if mo ! i < bg_threshold cfg then 0 else lab ! i)"
    unfolding l by (simp add: fold_const_nth eligible_sets)
  moreover have "length labels = length lab" unfolding l by simp
  ultimately show ?thesis by blast
qed

lemma shuffle_length: "is_shuffle s \<Longrightarrow> length (s a) = length a"
  unfolding is_shuffle_def by (metis mset_eq_length)

lemma encode_sample_ok:
  assumes "is_shuffle shuffle_fg" "is_shuffle shuffle_bg"
    and "is_rounding f64"
    and "f64 (real_of_int (rois_per_image cfg)) = real_of_int (rois_per_image cfg)"
    and "0 \<le> rois_per_image cfg" "0 \<le> fg_roi_fraction cfg" "fg_roi_fraction cfg \<le> 1"
    and "length lab = length mo"
  shows "\<exists>labels fg bg.
     encode_sample cfg f64 shuffle_fg shuffle_bg mo lab = Inr (labels, fg, bg, fg @ bg) \<and>
     int (length fg) = fg_target cfg f64 mo \<and>
     int (length bg) \<le> rois_per_image cfg - fg_target cfg f64 mo"
proof -
  let ?fe = "fg_eligible cfg mo" and ?be = "bg_eligible cfg mo"
  let ?t = "fg_target cfg f64 mo"
  let ?r = "rois_per_image cfg - ?t"
  note tb = fg_target_bounds [OF assms(3,4,5,6,7), of mo]
  from tb have t0: "0 \<le> ?t" and tn: "?t \<le> int (length ?fe)" and r0: "0 \<le> ?r" by auto
  let ?F = "if ?fe \<noteq> [] then random_choice shuffle_fg ?fe ?t else Inr ?fe"
  let ?B = "if ?be \<noteq> [] \<and> ?r < int (length ?be) then random_choice shuffle_bg ?be ?r else Inr ?be"
  obtain fg where f: "?F = Inr fg" and lf: "int (length fg) = ?t"
  proof (cases "?fe = []")
    case True
    with t0 tn have "?t = 0" by simp
    with True that [of "[]"] show ?thesis by simp
  next
    case False
    have "random_choice shuffle_fg ?fe ?t = Inr (take (nat ?t) (shuffle_fg ?fe))"
      using False t0 tn by (rule random_choice_ok)
    moreover have "int (length (take (nat ?t) (shuffle_fg ?fe))) = ?t"
      using t0 tn shuffle_length [OF assms(1), of ?fe] by simp
    ultimately show ?thesis using False that [of "take (nat ?t) (shuffle_fg ?fe)"] by simp
  qed
  have "list_all (\<lambda>i. i < length lab) ?be"
    unfolding list_all_iff using assms(8) by (simp add: eligible_sets)
  then have l: "setitem_const lab ?be 0 = Inr (fold (\<lambda>i r. r[i := 0]) ?be lab)"
    by (simp add: setitem_const_def)
  obtain bg where b: "?B = Inr bg" and lb: "int (length bg) \<le> ?r"
  proof (cases "?be \<noteq> [] \<and> ?r < int (length ?be)")
    case True
    then have "random_choice shuffle_bg ?be ?r = Inr (take (nat ?r) (shuffle_bg ?be))"
      using r0 by (intro random_choice_ok) simp_all
    moreover have "int (length (take (nat ?r) (shuffle_bg ?be))) \<le> ?r"
      using r0 by simp
    ultimately show ?thesis using True that [of "take (nat ?r) (shuffle_bg ?be)"] by simp
  next
    case False
    then have "int (length ?be) \<le> ?r" using r0 by auto
    with False that [of ?be] show ?thesis by auto
  qed
  have "encode_sample cfg f64 shuffle_fg shuffle_bg mo lab =
      Inr (fold (\<lambda>i r. r[i := 0]) ?be lab, fg, bg, fg @ bg)"
    unfolding encode_sample_unfold by (simp only: f l b bind_res_Inr)
  with lf lb show ?thesis by blast
qed

text \<open>
  Without a foreground-eligible proposal the first draw is not made, the foreground
  target is 0 and the background target is \<^verbatim>\<open>rois_per_image\<close>.
\<close>

lemma encode_sample_no_foreground:
  assumes "fg_eligible cfg mo = []"
    and "is_rounding f64"
    and "0 \<le> rois_per_image cfg" "0 \<le> fg_roi_fraction cfg"
    and "length lab = length mo"
  shows "fg_target cfg f64 mo = 0 \<and>
     encode_sample cfg f64 shuffle_fg shuffle_bg mo lab =
       Inr (fold (\<lambda>i r. r[i := 0]) (bg_eligible cfg mo) lab, [],
            (if bg_eligible cfg mo \<noteq> [] \<and> rois_per_image cfg < int (length (bg_eligible cfg mo))
             then take (nat (rois_per_image cfg)) (shuffle_bg (bg_eligible cfg mo))
             else bg_eligible cfg mo),
            (if bg_eligible cfg mo \<noteq> [] \<and> rois_per_image cfg < int (length (bg_eligible cfg mo))
             then take (nat (rois_per_image cfg)) (shuffle_bg (bg_eligible cfg mo))
             else bg_eligible cfg mo))"
proof -
  let ?be = "bg_eligible cfg mo"
  from assms(2) have z: "f64 0 = 0" and m: "mono f64" by (simp_all add: is_rounding_def)
  have "0 \<le> real_of_int (rois_per_image cfg)" using assms(3) by simp
  from monoD [OF m this] have "0 \<le> f64 (real_of_int (rois_per_image cfg))" by (simp add: z)
  then have "0 \<le> f64 (real_of_int (rois_per_image cfg)) * fg_roi_fraction cfg"
    using assms(4) by simp
  from monoD [OF m this]
  have "0 \<le> f64 (f64 (real_of_int (rois_per_image cfg)) * fg_roi_fraction cfg)" by (simp add: z)
  then have t: "fg_target cfg f64 mo = 0" by (simp add: fg_target_def assms(1) py_int_def)
  have "list_all (\<lambda>i. i < length lab) ?be"
    unfolding list_all_iff using assms(5) by (simp add: eligible_sets)
  then have l: "setitem_const lab ?be 0 = Inr (fold (\<lambda>i r. r[i := 0]) ?be lab)"
    by (simp add: setitem_const_def)
  have b: "?be \<noteq> [] \<and> rois_per_image cfg < int (length ?be) \<Longrightarrow>
      random_choice shuffle_bg ?be (rois_per_image cfg) =
        Inr (take (nat (rois_per_image cfg)) (shuffle_bg ?be))"
    using assms(3) by (intro random_choice_ok) simp_all
  show ?thesis
    unfolding encode_sample_unfold t using assms(1) l b by simp
qed

lemma encode_Inr:
  assumes "encode cfg f32 f64 iou enc shuffle_fg shuffle_bg gt_boxes rois num_classes = Inr (labels, rois', t, w)"
  shows "\<exists>ga mo lab fg bg keep ex ka gtr bt bw.
     encode_match iou gt_boxes rois = Inr (ga, mo, lab) \<and>
     encode_sample cfg f64 shuffle_fg shuffle_bg mo lab = Inr (labels, fg, bg, keep) \<and>
     getitem_rows_cols rois keep 4 = Inr ex \<and>
     getitem_fancy ga keep = Inr ka \<and>
     getitem_rows_cols gt_boxes ka 4 = Inr gtr \<and>
     compute_targets f32 enc ex gtr labels num_classes = Inr (bt, bw) \<and>
     unmap f32 (ArrN bt) (nrows rois) keep 0 = Inr t \<and>
     unmap f32 (ArrN bw) (nrows rois) keep 0 = Inr w \<and> rois' = rois"
  using assms
  by (auto simp: encode_def Let_def bind_res_eq_Inr simp del: unmap.simps
      split: prod.splits)

lemma unmap_ArrN_Inr:
  assumes "unmap f32 (ArrN a) cnt inds fill = Inr r"
  shows "\<exists>ret. r = ArrN (Arr2 (ncols a) ret) \<and> length ret = cnt \<and>
     (length (rows a) = length inds \<or> length (rows a) = 1) \<and>
     (\<forall>j<cnt. j \<notin> set inds \<longrightarrow> ret ! j = replicate (ncols a) (f32 fill))"
proof -
  from assms obtain ret where
    s: "setitem_fancy (replicate cnt (replicate (ncols a) (f32 fill))) inds
          (map (map f32) (rows a)) = Inr ret"
    and r: "r = ArrN (Arr2 (ncols a) ret)"
    by (auto simp: bind_res_eq_Inr)
  have "length ret = cnt" using setitem_fancy_length [OF s] by simp
  moreover have "\<forall>j<cnt. j \<notin> set inds \<longrightarrow> ret ! j = replicate (ncols a) (f32 fill)"
    using setitem_fancy_other [OF s] by simp
  moreover have "length (rows a) = length inds \<or> length (rows a) = 1"
    using s by (simp add: setitem_fancy_def split: if_splits)
  ultimately show ?thesis using r by blast
qed

text \<open>
  What a returning call of \<^verbatim>\<open>encode\<close> looks like: its outputs have one row per
  proposal, and it kept as many indices as there are proposals unless there is one
  proposal only, because \<^verbatim>\<open>_compute_targets\<close> is given the labels of all proposals.
\<close>

lemma encode_Inr_shape:
  assumes "encode cfg f32 f64 iou enc shuffle_fg shuffle_bg gt_boxes rois num_classes = Inr (labels, rois', t, w)"
  shows "length labels = nrows rois \<and> rois' = rois \<and>
     (\<exists>ta wa. t = ArrN ta \<and> w = ArrN wa \<and>
        nrows ta = nrows rois \<and> ncols ta = 4 * num_classes \<and>
        nrows wa = nrows rois \<and> ncols wa = 4 * num_classes)"
proof -
  from encode_Inr [OF assms] obtain ga mo lab fg bg keep ex ka gtr bt bw where
    m: "encode_match iou gt_boxes rois = Inr (ga, mo, lab)"
    and s: "encode_sample cfg f64 shuffle_fg shuffle_bg mo lab = Inr (labels, fg, bg, keep)"
    and c: "compute_targets f32 enc ex gtr labels num_classes = Inr (bt, bw)"
    and ut: "unmap f32 (ArrN bt) (nrows rois) keep 0 = Inr t"
    and uw: "unmap f32 (ArrN bw) (nrows rois) keep 0 = Inr w"
    and r: "rois' = rois"
    by blast
  from encode_sample_labels [OF s] encode_match_Inr [OF m]
  have l: "length labels = nrows rois" by simp
  from compute_targets_shape [OF c]
  have nc: "ncols bt = 4 * num_classes" "ncols bw = 4 * num_classes" by blast+
  from unmap_ArrN_Inr [OF ut] obtain rt where
    t: "t = ArrN (Arr2 (ncols bt) rt)" and lt: "length rt = nrows rois" by blast
  from unmap_ArrN_Inr [OF uw] obtain rw where
    w: "w = ArrN (Arr2 (ncols bw) rw)" and lw: "length rw = nrows rois" by blast
  have "t = ArrN (Arr2 (ncols bt) rt) \<and> w = ArrN (Arr2 (ncols bw) rw) \<and>
        nrows (Arr2 (ncols bt) rt) = nrows rois \<and> ncols (Arr2 (ncols bt) rt) = 4 * num_classes \<and>
        nrows (Arr2 (ncols bw) rw) = nrows rois \<and> ncols (Arr2 (ncols bw) rw) = 4 * num_classes"
    using t w lt lw nc by (simp add: nrows_def)
  then have "\<exists>ta wa. t = ArrN ta \<and> w = ArrN wa \<and>
        nrows ta = nrows rois \<and> ncols ta = 4 * num_classes \<and>
        nrows wa = nrows rois \<and> ncols wa = 4 * num_classes"
    by blast
  with l r show ?thesis by blast
qed

lemma encode_Inr_all_kept:
  assumes "encode cfg f32 f64 iou enc shuffle_fg shuffle_bg gt_boxes rois num_classes = Inr (labels, rois', t, w)"
  shows "\<exists>ga mo lab fg bg keep.
     encode_match iou gt_boxes rois = Inr (ga, mo, lab) \<and>
     encode_sample cfg f64 shuffle_fg shuffle_bg mo lab = Inr (labels, fg, bg, keep) \<and>
     (length keep = nrows rois \<or> nrows rois = 1)"
proof -
  from encode_Inr [OF assms] obtain ga mo lab fg bg keep ex ka gtr bt bw where
    m: "encode_match iou gt_boxes rois = Inr (ga, mo, lab)"
    and s: "encode_sample cfg f64 shuffle_fg shuffle_bg mo lab = Inr (labels, fg, bg, keep)"
    and c: "compute_targets f32 enc ex gtr labels num_classes = Inr (bt, bw)"
    and u: "unmap f32 (ArrN bt) (nrows rois) keep 0 = Inr t"
    by blast
  from compute_targets_shape [OF c] have "length (rows bt) = length labels" by (simp add: nrows_def)
  moreover from encode_sample_labels [OF s] have "length labels = length lab" by blast
  moreover from encode_match_Inr [OF m] have "length lab = nrows rois" by blast
  moreover from unmap_ArrN_Inr [OF u] have "length (rows bt) = length keep \<or> length (rows bt) = 1"
    by blast
  ultimately have "length keep = nrows rois \<or> nrows rois = 1" by auto
  with m s show ?thesis by blast
qed


text \<open>
  A proposal whose maximal overlap is at least the background threshold and below the
  foreground threshold is eligible for neither draw, so no outcome of the sampling stage
  keeps it. A call of \<^verbatim>\<open>encode\<close> with such a proposal among two or more therefore keeps
  fewer indices than there are proposals, and raises.
\<close>

lemma dead_zone_not_kept:
  assumes "is_shuffle shuffle_fg" "is_shuffle shuffle_bg"
    and "encode_sample cfg f64 shuffle_fg shuffle_bg mo lab = Inr (labels, fg, bg, keep)"
    and "bg_threshold cfg \<le> mo ! i" "mo ! i < fg_threshold cfg"
  shows "i \<notin> set keep"
proof -
  from encode_sample_kept [OF assms(1,2,3)]
  have "set keep \<subseteq> set (fg_eligible cfg mo) \<union> set (bg_eligible cfg mo)" by auto
  moreover have "i \<notin> set (fg_eligible cfg mo)" using assms(5) by (simp add: eligible_sets)
  moreover have "i \<notin> set (bg_eligible cfg mo)" using assms(4) by (simp add: eligible_sets)
  ultimately show ?thesis by blast
qed

lemma dead_zone_raises:
  assumes "is_shuffle shuffle_fg" "is_shuffle shuffle_bg"
    and "encode_match iou gt_boxes rois = Inr (ga, mo, lab)"
    and "i < nrows rois" "bg_threshold cfg \<le> mo ! i" "mo ! i < fg_threshold cfg"
    and "1 < nrows rois"
  shows "\<exists>e. encode cfg f32 f64 iou enc shuffle_fg shuffle_bg gt_boxes rois num_classes = Inl e"
proof (cases "encode cfg f32 f64 iou enc shuffle_fg shuffle_bg gt_boxes rois num_classes")
  case (Inl e)
  then show ?thesis by blast
next
  case (Inr r)
  obtain labels rois' t w where r: "r = (labels, rois', t, w)" by (cases r) auto
  from encode_Inr_all_kept [OF Inr [unfolded r]] assms(3,7) obtain fg bg keep where
    s: "encode_sample cfg f64 shuffle_fg shuffle_bg mo lab = Inr (labels, fg, bg, keep)"
    and l: "length keep = nrows rois"
    by auto
  note k = encode_sample_kept [OF assms(1,2) s]
  from encode_match_Inr [OF assms(3)] have lm: "length mo = nrows rois" by blast
  have "set fg \<inter> set bg = {}"
  proof (rule ccontr)
    assume "set fg \<inter> set bg \<noteq> {}"
    then obtain x where "x \<in> set fg" "x \<in> set bg" by blast
    with k have "x \<in> set (fg_eligible cfg mo)" "x \<in> set (bg_eligible cfg mo)" by blast+
    then have "fg_threshold cfg \<le> mo ! x" "mo ! x < bg_threshold cfg"
      by (simp_all add: eligible_sets)
    with assms(5,6) show False by linarith
  qed
  with k have d: "distinct keep" by simp
  have sub: "set keep \<subseteq> {..<nrows rois}"
  proof
    fix x assume "x \<in> set keep"
    with k have "x \<in> set (fg_eligible cfg mo) \<or> x \<in> set (bg_eligible cfg mo)" by auto
    then have "x < length mo" by (auto simp: eligible_sets)
    with lm show "x \<in> {..<nrows rois}" by simp
  qed
  have "card (set keep) = nrows rois" using d l by (simp add: distinct_card)
  then have "card (set keep) = card {..<nrows rois}" by simp
  with sub have "set keep = {..<nrows rois}" by (intro card_subset_eq) simp_all
  with assms(4) have "i \<in> set keep" by simp
  with dead_zone_not_kept [OF assms(1,2) s assms(5,6)] show ?thesis by blast
qed
section \<open>The claims\<close>

text \<open>
  C1. \<^verbatim>\<open>encode\<close> gives \<^verbatim>\<open>_compute_targets\<close> the boxes of the kept indices and the
  labels of all proposals, so the arrays that come back have one row per proposal and
  are then scattered by the kept indices. With one ground-truth box, a first proposal
  that coincides with it and a second proposal whose overlap 3/8 lies between the two
  thresholds, only index 0 is kept (one index is eligible, so the draw has one outcome),
  both labels are 1, and the loop of \<^verbatim>\<open>_compute_targets\<close> reads row 1 of a one-row
  array: the call raises IndexError and returns nothing.
\<close>

theorem encode_raises_on_kept_subset:
  "encode_match box_iou (Arr2 5 [[10, 10, 50, 50, 1]])
      (Arr2 4 [[10, 10, 50, 50], [10, 10, 50, 25]]) = Inr ([0, 0], [1, 3 / 8], [1, 1]) \<and>
   encode_sample example_config float64 (\<lambda>xs. xs) (\<lambda>xs. xs) [1, 3 / 8] [1, 1]
     = Inr ([1, 1], [0], [], [0]) \<and>
   encode example_config float32 float64 box_iou corner_delta (\<lambda>xs. xs) (\<lambda>xs. xs)
       (Arr2 5 [[10, 10, 50, 50, 1]]) (Arr2 4 [[10, 10, 50, 50], [10, 10, 50, 25]]) 2
     = Inl IndexError"
  by code_simp

text \<open>
  C2 as stated fails: \<^verbatim>\<open>_compute_targets\<close> asserts that the two box arrays have the
  same number of rows and four columns, and asserts nothing about \<^verbatim>\<open>labels\<close>. With
  one matched pair of boxes, two labels (both 0) give a result of two rows, and no label
  gives a result of no rows.
\<close>

theorem compute_targets_labels_unchecked:
  "length [0, 0 :: real] \<noteq> nrows (Arr2 4 [[1, 2, 3, 4]]) \<and>
   compute_targets float32 corner_delta (Arr2 4 [[1, 2, 3, 4]]) (Arr2 4 [[1, 2, 3, 5]]) [0, 0] 2
     = Inr (zeros 2 8, zeros 2 8) \<and>
   length ([] :: real list) \<noteq> nrows (Arr2 4 [[1, 2, 3, 4]]) \<and>
   compute_targets float32 corner_delta (Arr2 4 [[1, 2, 3, 4]]) (Arr2 4 [[1, 2, 3, 5]]) [] 2
     = Inr (zeros 0 8, zeros 0 8)"
  by code_simp

text \<open>
  C2, amended. A difference between the number of rows of the matched proposals and of
  the matched ground-truth boxes fails the first assertion, before anything is computed.
  The length of \<^verbatim>\<open>labels\<close> is not asserted: when the two box arrays have the same
  number of rows and four columns each, no assertion fails, whatever the labels are.
\<close>

theorem compute_targets_assertion:
  "(nrows ex_rois \<noteq> nrows gt_rois \<longrightarrow>
      compute_targets f32 enc ex_rois gt_rois labels num_classes = Inl AssertionError) \<and>
   (nrows ex_rois = nrows gt_rois \<and> ncols ex_rois = 4 \<and> ncols gt_rois = 4 \<longrightarrow>
      compute_targets f32 enc ex_rois gt_rois labels num_classes \<noteq> Inl AssertionError)"
proof (intro conjI impI)
  assume "nrows ex_rois \<noteq> nrows gt_rois"
  then show "compute_targets f32 enc ex_rois gt_rois labels num_classes = Inl AssertionError"
    by (simp add: compute_targets_def)
next
  assume h: "nrows ex_rois = nrows gt_rois \<and> ncols ex_rois = 4 \<and> ncols gt_rois = 4"
  show "compute_targets f32 enc ex_rois gt_rois labels num_classes \<noteq> Inl AssertionError"
  proof
    assume a: "compute_targets f32 enc ex_rois gt_rois labels num_classes = Inl AssertionError"
    let ?z = "replicate (length labels) (replicate (4 * num_classes) (0::real))"
    from a h have "targets_loop f32 (bbox_transform enc ex_rois gt_rois) labels
        (np_where (\<lambda>c. c > 0) labels) (?z, ?z) = Inl AssertionError"
      by (auto simp: compute_targets_def Let_def zeros_def bind_res_def split: sum.splits)
    then show False by (simp add: targets_loop_not_assert)
  qed
qed

theorem compute_targets_assertion_witness:
  "nrows (Arr2 4 [[1, 2, 3, 4]]) \<noteq> nrows (Arr2 4 [[1, 2, 3, 5], [5, 5, 8, 8]]) \<and>
   compute_targets float32 corner_delta (Arr2 4 [[1, 2, 3, 4]]) (Arr2 4 [[1, 2, 3, 5], [5, 5, 8, 8]]) [1] 2
     = Inl AssertionError \<and>
   nrows (Arr2 4 [[1, 2, 3, 4]]) = nrows (Arr2 4 [[1, 2, 3, 5]]) \<and>
   ncols (Arr2 4 [[1, 2, 3, 4]]) = 4 \<and> ncols (Arr2 4 [[1, 2, 3, 5]]) = 4 \<and>
   compute_targets float32 corner_delta (Arr2 4 [[1, 2, 3, 4]]) (Arr2 4 [[1, 2, 3, 5]]) [1, 1] 2
     \<noteq> Inl AssertionError"
  using compute_targets_assertion [of "Arr2 4 [[1, 2, 3, 4]]" "Arr2 4 [[1, 2, 3, 5], [5, 5, 8, 8]]"
      float32 corner_delta "[1]" 2]
    compute_targets_assertion [of "Arr2 4 [[1, 2, 3, 4]]" "Arr2 4 [[1, 2, 3, 5]]"
      float32 corner_delta "[1, 1]" 2]
  by (simp add: nrows_def)

text \<open>
  C3. Whenever \<^verbatim>\<open>_compute_targets\<close> returns, both arrays it returns have one row per
  label and four columns per class: the number of rows is the length of \<^verbatim>\<open>labels\<close>,
  also when that length differs from the number of rows of the matched proposals.
\<close>

theorem compute_targets_rows_from_labels:
  assumes "compute_targets f32 enc ex_rois gt_rois labels num_classes = Inr (t, w)"
  shows "nrows t = length labels \<and> ncols t = 4 * num_classes \<and> wf_arr2 t \<and>
         nrows w = length labels \<and> ncols w = 4 * num_classes \<and> wf_arr2 w"
  using assms by (rule compute_targets_shape)

theorem compute_targets_rows_from_labels_witness:
  "compute_targets float32 corner_delta (Arr2 4 [[1, 2, 3, 4]]) (Arr2 4 [[1, 2, 3, 5]]) [0, 0] 2
     = Inr (zeros 2 8, zeros 2 8) \<and>
   nrows (Arr2 4 [[1, 2, 3, 4]]) = 1 \<and> length [0, 0 :: real] = 2 \<and>
   nrows (zeros 2 8) = 2 \<and> ncols (zeros 2 8) = 4 * 2 \<and> wf_arr2 (zeros 2 8)"
proof -
  have e: "compute_targets float32 corner_delta (Arr2 4 [[1, 2, 3, 4]]) (Arr2 4 [[1, 2, 3, 5]]) [0, 0] 2
     = Inr (zeros 2 8, zeros 2 8)"
    by code_simp
  from compute_targets_rows_from_labels [OF e] e show ?thesis
    by (simp add: nrows_def)
qed

text \<open>
  C4. A proposal whose maximal overlap is at least the background threshold and below
  the foreground threshold is never among the kept indices (\<open>dead_zone_not_kept\<close>), but
  \<^verbatim>\<open>encode\<close> returns no inside weights for it: with such a proposal among two or more
  the call raises (\<open>dead_zone_raises\<close>), because \<^verbatim>\<open>_compute_targets\<close> is given the
  labels of all proposals and only the boxes of the kept ones. With one ground-truth box
  of class 1, a first proposal that coincides with it, a second proposal of overlap 3/8
  and a third of overlap 0, the indices 0 and 2 are kept; \<^verbatim>\<open>_compute_targets\<close> returns
  arrays of three rows in which row 1, the row of the proposal that is not kept, holds
  the delta of proposal 2 and weights of 1; \<^verbatim>\<open>_unmap\<close> is given three rows for two
  indices, and the call raises ValueError.
\<close>

theorem encode_raises_on_dead_zone:
  "encode_match box_iou (Arr2 5 [[10, 10, 50, 50, 1]])
      (Arr2 4 [[10, 10, 50, 50], [10, 10, 50, 25], [100, 100, 110, 110]])
     = Inr ([0, 0, 0], [1, 3 / 8, 0], [1, 1, 1]) \<and>
   bg_threshold example_config \<le> [1, 3 / 8, 0] ! 1 \<and>
   [1, 3 / 8, 0] ! 1 < fg_threshold example_config \<and>
   encode_sample example_config float64 (\<lambda>xs. xs) (\<lambda>xs. xs) [1, 3 / 8, 0] [1, 1, 1]
     = Inr ([1, 1, 0], [0], [2], [0, 2]) \<and>
   compute_targets float32 corner_delta
       (Arr2 4 [[10, 10, 50, 50], [100, 100, 110, 110]])
       (Arr2 4 [[10, 10, 50, 50], [10, 10, 50, 50]]) [1, 1, 0] 2
     = Inr (Arr2 8 [[0, 0, 0, 0, 0, 0, 0, 0], [0, 0, 0, 0, - 90, - 90, - 60, - 60],
                    [0, 0, 0, 0, 0, 0, 0, 0]],
            Arr2 8 [[0, 0, 0, 0, 1, 1, 1, 1], [0, 0, 0, 0, 1, 1, 1, 1],
                    [0, 0, 0, 0, 0, 0, 0, 0]]) \<and>
   encode example_config float32 float64 box_iou corner_delta (\<lambda>xs. xs) (\<lambda>xs. xs)
       (Arr2 5 [[10, 10, 50, 50, 1]])
       (Arr2 4 [[10, 10, 50, 50], [10, 10, 50, 25], [100, 100, 110, 110]]) 2
     = Inl ValueError"
  by code_simp



text \<open>
  C6. The product of the claim is the one the source computes: \<^verbatim>\<open>rois_per_image\<close> as a
  double, times \<^verbatim>\<open>fg_roi_fraction\<close>, rounded to a double. With a count
  \<^verbatim>\<open>rois_per_image\<close> that is not negative and is a double, a fraction
  \<^verbatim>\<open>fg_roi_fraction\<close> between 0 and 1 and a rounding that keeps zero and is monotone,
  for a ground-truth array of at least one row and five columns and for every outcome of
  the two draws, the sampling stage returns; the kept foreground indices are at most
  that product rounded down and at most the foreground-eligible ones, and the kept
  foreground and background indices together are at most \<^verbatim>\<open>rois_per_image\<close>.
\<close>

theorem sampling_budget:
  assumes "is_shuffle shuffle_fg" "is_shuffle shuffle_bg"
    and "is_rounding f64"
    and "f64 (real_of_int (rois_per_image cfg)) = real_of_int (rois_per_image cfg)"
    and "0 \<le> rois_per_image cfg" "0 \<le> fg_roi_fraction cfg" "fg_roi_fraction cfg \<le> 1"
    and "0 < nrows gt_boxes" "4 < ncols gt_boxes"
  shows "\<exists>ga mo lab labels fg bg.
     encode_match iou gt_boxes rois = Inr (ga, mo, lab) \<and>
     encode_sample cfg f64 shuffle_fg shuffle_bg mo lab = Inr (labels, fg, bg, fg @ bg) \<and>
     int (length fg)
       \<le> \<lfloor>f64 (f64 (real_of_int (rois_per_image cfg)) * fg_roi_fraction cfg)\<rfloor> \<and>
     length fg \<le> length (fg_eligible cfg mo) \<and>
     int (length fg) + int (length bg) \<le> rois_per_image cfg"
proof -
  from encode_match_ok [OF assms(8,9)] obtain ga mo lab where
    m: "encode_match iou gt_boxes rois = Inr (ga, mo, lab)" by blast
  from encode_match_Inr [OF m] have "length lab = length mo" by simp
  from encode_sample_ok [OF assms(1-7) this] obtain labels fg bg where
    s: "encode_sample cfg f64 shuffle_fg shuffle_bg mo lab = Inr (labels, fg, bg, fg @ bg)"
    and f: "int (length fg) = fg_target cfg f64 mo"
    and b: "int (length bg) \<le> rois_per_image cfg - fg_target cfg f64 mo"
    by blast
  note tb = fg_target_bounds [OF assms(3-7), of mo]
  from tb f have 1: "int (length fg)
      \<le> \<lfloor>f64 (f64 (real_of_int (rois_per_image cfg)) * fg_roi_fraction cfg)\<rfloor>"
    by simp
  from tb f have 2: "length fg \<le> length (fg_eligible cfg mo)" by simp
  from f b have 3: "int (length fg) + int (length bg) \<le> rois_per_image cfg" by simp
  from m s 1 2 3 show ?thesis by blast
qed

text \<open>
  Ten rois per image and the double nearest to 0.3: the product as the source computes
  it is 3, and three of the four foreground-eligible proposals are kept, where the exact
  product of 10 and that double, rounded down, is 2.
\<close>

theorem sampling_budget_witness:
  "is_shuffle rev \<and> is_rounding float64 \<and>
   float64 (real_of_int (rois_per_image rounded_config))
     = real_of_int (rois_per_image rounded_config) \<and>
   0 \<le> rois_per_image rounded_config \<and> 0 \<le> fg_roi_fraction rounded_config \<and>
   fg_roi_fraction rounded_config \<le> 1 \<and>
   0 < nrows (Arr2 5 [[10, 10, 50, 50, 1]]) \<and> 4 < ncols (Arr2 5 [[10, 10, 50, 50, 1]]) \<and>
   encode_match box_iou (Arr2 5 [[10, 10, 50, 50, 1]])
       (Arr2 4 [[10, 10, 50, 50], [10, 10, 50, 45], [10, 10, 45, 50], [15, 10, 50, 50],
                [100, 100, 110, 110], [60, 60, 70, 70]])
     = Inr ([0, 0, 0, 0, 0, 0], [1, 7 / 8, 7 / 8, 7 / 8, 0, 0], [1, 1, 1, 1, 1, 1]) \<and>
   fg_eligible rounded_config [1, 7 / 8, 7 / 8, 7 / 8, 0, 0] = [0, 1, 2, 3] \<and>
   \<lfloor>float64 (float64 (real_of_int (rois_per_image rounded_config))
        * fg_roi_fraction rounded_config)\<rfloor> = 3 \<and>
   \<lfloor>real_of_int (rois_per_image rounded_config) * fg_roi_fraction rounded_config\<rfloor> = 2 \<and>
   encode_sample rounded_config float64 rev rev [1, 7 / 8, 7 / 8, 7 / 8, 0, 0] [1, 1, 1, 1, 1, 1]
     = Inr ([1, 1, 1, 1, 0, 0], [3, 2, 1], [4, 5], [3, 2, 1, 4, 5])"
proof -
  let ?G = "Arr2 5 [[10, 10, 50, 50, 1]]"
  let ?R = "Arr2 4 [[10, 10, 50, 50], [10, 10, 50, 45], [10, 10, 45, 50], [15, 10, 50, 50],
                    [100, 100, 110, 110], [60, 60, 70, 70]]"
  have sh: "is_shuffle rev" by (simp add: is_shuffle_def)
  have r: "float64 (real_of_int (rois_per_image rounded_config))
      = real_of_int (rois_per_image rounded_config)"
    by code_simp
  have c: "0 \<le> rois_per_image rounded_config" "0 \<le> fg_roi_fraction rounded_config"
    "fg_roi_fraction rounded_config \<le> 1"
    by code_simp+
  have g: "0 < nrows ?G" "4 < ncols ?G" by (simp_all add: nrows_def)
  have m: "encode_match box_iou ?G ?R
     = Inr ([0, 0, 0, 0, 0, 0], [1, 7 / 8, 7 / 8, 7 / 8, 0, 0], [1, 1, 1, 1, 1, 1])"
    by code_simp
  have f: "fg_eligible rounded_config [1, 7 / 8, 7 / 8, 7 / 8, 0, 0] = [0, 1, 2, 3]"
    by code_simp
  have p: "\<lfloor>float64 (float64 (real_of_int (rois_per_image rounded_config))
        * fg_roi_fraction rounded_config)\<rfloor> = 3"
    "\<lfloor>real_of_int (rois_per_image rounded_config) * fg_roi_fraction rounded_config\<rfloor> = 2"
    by code_simp+
  have s: "encode_sample rounded_config float64 rev rev [1, 7 / 8, 7 / 8, 7 / 8, 0, 0]
       [1, 1, 1, 1, 1, 1]
     = Inr ([1, 1, 1, 1, 0, 0], [3, 2, 1], [4, 5], [3, 2, 1, 4, 5])"
    by code_simp
  from sampling_budget [OF sh sh is_rounding_float64 r c g, of box_iou ?R]
    sh is_rounding_float64 r c g m f p s
  show ?thesis by simp
qed

text \<open>
  C7 as stated fails: the targets array has the type \<^verbatim>\<open>np.float32\<close>, so a row holds
  the delta rounded to that type and not the delta. One proposal, one ground-truth box
  and the label 1 satisfy the precondition; the first component of the delta is
  16777217, and the row holds 16777216.
\<close>

theorem compute_targets_rounds_delta:
  "nrows (Arr2 4 [[0, 0, 0, 0]]) = length [1 :: real] \<and>
   nrows (Arr2 4 [[16777217, 0, 0, 0]]) = length [1 :: real] \<and>
   delta_row (corner_delta [0, 0, 0, 0] [16777217, 0, 0, 0]) = [16777217, 0, 0, 0] \<and>
   compute_targets float32 corner_delta (Arr2 4 [[0, 0, 0, 0]]) (Arr2 4 [[16777217, 0, 0, 0]])
       [1] 2
     = Inr (Arr2 8 [[0, 0, 0, 0, 16777216, 0, 0, 0]], Arr2 8 [[0, 0, 0, 0, 1, 1, 1, 1]]) \<and>
   [0, 0, 0, 0, 16777216, 0, 0, 0 :: real]
     \<noteq> [0, 0, 0, 0] @ delta_row (corner_delta [0, 0, 0, 0] [16777217, 0, 0, 0])"
  by code_simp

text \<open>
  C7, amended. When the matched proposals, the matched ground-truth boxes and the labels
  have the same number of rows (and the box arrays four columns), with every label below
  \<^verbatim>\<open>num_classes\<close>, \<^verbatim>\<open>_compute_targets\<close> returns; a row whose label is
  \<open>c > 0\<close> holds the delta of its proposal and its ground-truth box, rounded to
  float32, in the columns \<open>4c\<close> to \<open>4c + 3\<close> of the targets and zeros elsewhere, and
  ones in exactly these columns of the weights; a row whose label is 0 is zero in both
  arrays.
\<close>

theorem compute_targets_class_slots:
  assumes "nrows ex_rois = length labels" "nrows gt_rois = length labels"
    and "ncols ex_rois = 4" "ncols gt_rois = 4"
    and "\<forall>i<length labels. labels ! i < real num_classes"
  shows "\<exists>t w. compute_targets f32 enc ex_rois gt_rois labels num_classes = Inr (t, w) \<and>
     nrows t = length labels \<and> nrows w = length labels \<and>
     (\<forall>i<length labels. \<forall>c. labels ! i = real c \<longrightarrow>
        (0 < c \<longrightarrow>
           rows t ! i = replicate (4 * c) 0 @
                        map f32 (delta_row (enc (rows ex_rois ! i) (rows gt_rois ! i))) @
                        replicate (4 * num_classes - (4 * c + 4)) 0 \<and>
           rows w ! i = replicate (4 * c) 0 @ replicate 4 1 @
                        replicate (4 * num_classes - (4 * c + 4)) 0) \<and>
        (c = 0 \<longrightarrow>
           rows t ! i = replicate (4 * num_classes) 0 \<and>
           rows w ! i = replicate (4 * num_classes) 0))"
  unfolding compute_targets_run [OF assms]
  by (simp add: nrows_def)

theorem compute_targets_class_slots_witness:
  "nrows (Arr2 4 [[1, 2, 3, 4], [5, 5, 9, 9]]) = length [1, 0 :: real] \<and>
   nrows (Arr2 4 [[16777218, 2, 3, 5], [5, 5, 8, 8]]) = length [1, 0 :: real] \<and>
   ncols (Arr2 4 [[1, 2, 3, 4], [5, 5, 9, 9]]) = 4 \<and>
   ncols (Arr2 4 [[16777218, 2, 3, 5], [5, 5, 8, 8]]) = 4 \<and>
   list_all (\<lambda>l. l < real 2) [1, 0] \<and>
   map float32 (delta_row (corner_delta [1, 2, 3, 4] [16777218, 2, 3, 5])) = [16777216, 0, 0, 1] \<and>
   compute_targets float32 corner_delta (Arr2 4 [[1, 2, 3, 4], [5, 5, 9, 9]])
       (Arr2 4 [[16777218, 2, 3, 5], [5, 5, 8, 8]]) [1, 0] 2
     = Inr (Arr2 8 [[0, 0, 0, 0, 16777216, 0, 0, 1], [0, 0, 0, 0, 0, 0, 0, 0]],
            Arr2 8 [[0, 0, 0, 0, 1, 1, 1, 1], [0, 0, 0, 0, 0, 0, 0, 0]])"
proof -
  have h: "\<forall>i<length [1, 0 :: real]. [1, 0 :: real] ! i < real 2"
    by (simp add: less_Suc_eq)
  have d: "map float32 (delta_row (corner_delta [1, 2, 3, 4] [16777218, 2, 3, 5]))
      = [16777216, 0, 0, 1]"
    by code_simp
  have e: "compute_targets float32 corner_delta (Arr2 4 [[1, 2, 3, 4], [5, 5, 9, 9]])
       (Arr2 4 [[16777218, 2, 3, 5], [5, 5, 8, 8]]) [1, 0] 2
     = Inr (Arr2 8 [[0, 0, 0, 0, 16777216, 0, 0, 1], [0, 0, 0, 0, 0, 0, 0, 0]],
            Arr2 8 [[0, 0, 0, 0, 1, 1, 1, 1], [0, 0, 0, 0, 0, 0, 0, 0]])"
    by code_simp
  from compute_targets_class_slots [where ex_rois = "Arr2 4 [[1, 2, 3, 4], [5, 5, 9, 9]]"
      and labels = "[1, 0]" and gt_rois = "Arr2 4 [[16777218, 2, 3, 5], [5, 5, 8, 8]]"
      and num_classes = 2 and enc = corner_delta and ?f32.0 = float32, OF _ _ _ _ h] d e
  show ?thesis by (simp add: nrows_def)
qed

text \<open>
  C8 as stated fails: the result array has the type \<^verbatim>\<open>np.float32\<close>, so it holds the
  rounded entries of \<^verbatim>\<open>data\<close> and the rounded fill value. The entry 16777217 at the
  index 1 comes back as 16777216, in both branches, and so does the fill value 16777217.
\<close>

theorem unmap_rounds_data:
  "list_all (\<lambda>i. i < 2) [1 :: nat] \<and> length [1 :: nat] = length [16777217 :: real] \<and>
   unmap float32 (Arr1 [16777217]) 2 [1] 0 = Inr (Arr1 [0, 16777216]) \<and>
   length [1 :: nat] = nrows (Arr2 1 [[16777217]]) \<and>
   unmap float32 (ArrN (Arr2 1 [[16777217]])) 2 [1] 0 = Inr (ArrN (Arr2 1 [[0], [16777216]])) \<and>
   unmap float32 (Arr1 [1]) 2 [1] 16777217 = Inr (Arr1 [16777216, 1])"
  by code_simp

text \<open>
  C8, amended. \<^verbatim>\<open>_unmap(data, count, inds, fill)\<close> with every index below \<^verbatim>\<open>count\<close>
  and as many indices as \<^verbatim>\<open>data\<close> has rows returns an array of \<^verbatim>\<open>count\<close> rows of
  the trailing shape of \<^verbatim>\<open>data\<close>; a row whose index is not among the indices holds
  the fill value, rounded to float32, in every entry; a row whose index is among them is
  the row of \<^verbatim>\<open>data\<close> at the last position of that index, rounded to float32 entry
  by entry. The first part is the one-dimensional branch, the second the other branch;
  the indices are any list, sorted or not, with or without repetitions.
\<close>

theorem unmap_scatter:
  assumes "\<forall>i\<in>set inds. i < cnt"
  shows "(length inds = length d \<longrightarrow>
           (\<exists>ret. unmap f32 (Arr1 d) cnt inds fill = Inr (Arr1 ret) \<and> length ret = cnt \<and>
              (\<forall>j<cnt. (j \<notin> set inds \<longrightarrow> ret ! j = f32 fill) \<and>
                 (\<forall>p<length inds. inds ! p = j \<and> (\<forall>q. p < q \<and> q < length inds \<longrightarrow> inds ! q \<noteq> j)
                    \<longrightarrow> ret ! j = f32 (d ! p))))) \<and>
         (length inds = nrows a \<and> wf_arr2 a \<longrightarrow>
           (\<exists>ret. unmap f32 (ArrN a) cnt inds fill = Inr (ArrN ret) \<and> nrows ret = cnt \<and>
              ncols ret = ncols a \<and> wf_arr2 ret \<and>
              (\<forall>j<cnt. (j \<notin> set inds \<longrightarrow> rows ret ! j = replicate (ncols a) (f32 fill)) \<and>
                 (\<forall>p<length inds. inds ! p = j \<and> (\<forall>q. p < q \<and> q < length inds \<longrightarrow> inds ! q \<noteq> j)
                    \<longrightarrow> rows ret ! j = map f32 (rows a ! p)))))"
proof (intro conjI impI)
  assume len: "length inds = length d"
  let ?ret = "assign_rows (replicate cnt (f32 fill)) inds (map f32 d)"
  have "unmap f32 (Arr1 d) cnt inds fill = Inr (Arr1 ?ret)"
    using assms len by (simp add: setitem_fancy_ok)
  moreover have "length ?ret = cnt" by simp
  moreover have "\<forall>j<cnt. (j \<notin> set inds \<longrightarrow> ?ret ! j = f32 fill) \<and>
       (\<forall>p<length inds. inds ! p = j \<and> (\<forall>q. p < q \<and> q < length inds \<longrightarrow> inds ! q \<noteq> j)
          \<longrightarrow> ?ret ! j = f32 (d ! p))"
  proof (intro allI impI conjI)
    fix j assume "j < cnt" "j \<notin> set inds"
    then show "?ret ! j = f32 fill" by (simp add: assign_rows_other)
  next
    fix j p
    assume j: "j < cnt" and p: "p < length inds"
      and e: "inds ! p = j \<and> (\<forall>q. p < q \<and> q < length inds \<longrightarrow> inds ! q \<noteq> j)"
    have "?ret ! j = map f32 d ! p"
      using len p e j by (intro assign_rows_last) simp_all
    then show "?ret ! j = f32 (d ! p)" using len p by simp
  qed
  ultimately show "\<exists>ret. unmap f32 (Arr1 d) cnt inds fill = Inr (Arr1 ret) \<and> length ret = cnt \<and>
              (\<forall>j<cnt. (j \<notin> set inds \<longrightarrow> ret ! j = f32 fill) \<and>
                 (\<forall>p<length inds. inds ! p = j \<and> (\<forall>q. p < q \<and> q < length inds \<longrightarrow> inds ! q \<noteq> j)
                    \<longrightarrow> ret ! j = f32 (d ! p)))"
    by blast
next
  assume h: "length inds = nrows a \<and> wf_arr2 a"
  then have len: "length (rows a) = length inds" and wf: "wf_arr2 a"
    by (simp_all add: nrows_def)
  let ?ret = "assign_rows (replicate cnt (replicate (ncols a) (f32 fill))) inds
      (map (map f32) (rows a))"
  have other: "\<And>j. j < cnt \<Longrightarrow> j \<notin> set inds \<Longrightarrow> ?ret ! j = replicate (ncols a) (f32 fill)"
    by (simp add: assign_rows_other)
  have last: "\<And>j p. j < cnt \<Longrightarrow> p < length inds \<Longrightarrow> inds ! p = j
      \<Longrightarrow> \<forall>q. p < q \<and> q < length inds \<longrightarrow> inds ! q \<noteq> j \<Longrightarrow> ?ret ! j = map f32 (rows a ! p)"
  proof -
    fix j p
    assume j: "j < cnt" and p: "p < length inds" and e: "inds ! p = j"
      and q: "\<forall>q. p < q \<and> q < length inds \<longrightarrow> inds ! q \<noteq> j"
    have "?ret ! j = map (map f32) (rows a) ! p"
      using len p e j q by (intro assign_rows_last) simp_all
    then show "?ret ! j = map f32 (rows a ! p)" using len p by simp
  qed
  have "unmap f32 (ArrN a) cnt inds fill = Inr (ArrN (Arr2 (ncols a) ?ret))"
    using assms len by (simp add: setitem_fancy_ok)
  moreover have "nrows (Arr2 (ncols a) ?ret) = cnt" by (simp add: nrows_def)
  moreover have "wf_arr2 (Arr2 (ncols a) ?ret)"
    unfolding wf_arr2_def list_all_length
  proof (intro allI impI)
    fix j assume "j < length (rows (Arr2 (ncols a) ?ret))"
    then have j: "j < cnt" by simp
    show "length (rows (Arr2 (ncols a) ?ret) ! j) = ncols (Arr2 (ncols a) ?ret)"
    proof (cases "j \<in> set inds")
      case False
      with j show ?thesis by (simp add: other)
    next
      case True
      define P where "P = (\<lambda>p. p < length inds \<and> inds ! p = j)"
      from True obtain p0 where "P p0" by (auto simp: in_set_conv_nth P_def)
      have fin: "finite {p. P p}" by (simp add: P_def)
      define p where "p = Max {p. P p}"
      have "p \<in> {p. P p}" unfolding p_def using fin \<open>P p0\<close> by (intro Max_in) auto
      then have p: "p < length inds" "inds ! p = j" by (simp_all add: P_def)
      have "\<forall>q. p < q \<and> q < length inds \<longrightarrow> inds ! q \<noteq> j"
      proof (intro allI impI notI)
        fix q assume "p < q \<and> q < length inds" "inds ! q = j"
        then have "q \<in> {p. P p}" by (simp add: P_def)
        then have "q \<le> p" unfolding p_def using fin by (intro Max_ge) auto
        with \<open>p < q \<and> q < length inds\<close> show False by simp
      qed
      then have "?ret ! j = map f32 (rows a ! p)" using j p by (intro last) simp_all
      moreover have "length (rows a ! p) = ncols a"
        using wf p len by (simp add: wf_arr2_def list_all_length)
      ultimately show ?thesis by simp
    qed
  qed
  ultimately show "\<exists>ret. unmap f32 (ArrN a) cnt inds fill = Inr (ArrN ret) \<and> nrows ret = cnt \<and>
              ncols ret = ncols a \<and> wf_arr2 ret \<and>
              (\<forall>j<cnt. (j \<notin> set inds \<longrightarrow> rows ret ! j = replicate (ncols a) (f32 fill)) \<and>
                 (\<forall>p<length inds. inds ! p = j \<and> (\<forall>q. p < q \<and> q < length inds \<longrightarrow> inds ! q \<noteq> j)
                    \<longrightarrow> rows ret ! j = map f32 (rows a ! p)))"
    using other last by (intro exI [of _ "Arr2 (ncols a) ?ret"]) auto
qed

theorem unmap_scatter_witness:
  "list_all (\<lambda>i. i < 4) [2, 0, 2 :: nat] \<and>
   length [2, 0, 2 :: nat] = length [1, 2, 16777217 :: real] \<and>
   length [2, 0, 2 :: nat] = nrows (Arr2 2 [[1, 2], [3, 4], [5, 16777217]]) \<and>
   wf_arr2 (Arr2 2 [[1, 2], [3, 4], [5, 16777217]]) \<and>
   unmap float32 (Arr1 [1, 2, 16777217]) 4 [2, 0, 2] 7 = Inr (Arr1 [2, 7, 16777216, 7]) \<and>
   unmap float32 (ArrN (Arr2 2 [[1, 2], [3, 4], [5, 16777217]])) 4 [2, 0, 2] 7
     = Inr (ArrN (Arr2 2 [[3, 4], [7, 7], [5, 16777216], [7, 7]]))"
proof -
  have h: "\<forall>i\<in>set [2, 0, 2 :: nat]. i < 4" by simp
  have e1: "unmap float32 (Arr1 [1, 2, 16777217]) 4 [2, 0, 2] 7
     = Inr (Arr1 [2, 7, 16777216, 7])" by code_simp
  have e2: "unmap float32 (ArrN (Arr2 2 [[1, 2], [3, 4], [5, 16777217]])) 4 [2, 0, 2] 7
     = Inr (ArrN (Arr2 2 [[3, 4], [7, 7], [5, 16777216], [7, 7]]))" by code_simp
  from unmap_scatter [OF h, where d = "[1, 2, 16777217]" and fill = 7
      and a = "Arr2 2 [[1, 2], [3, 4], [5, 16777217]]" and ?f32.0 = float32] e1 e2
  show ?thesis by (simp add: nrows_def wf_arr2_def)
qed

text \<open>
  C9. For scores of shape R x K with K > 0 and decoded boxes of shape R x 4K,
  \<^verbatim>\<open>decode\<close> returns; for every proposal the predicted class is the first position
  of the maximum of its row of scores, the confidence is that maximum, and the final
  boxes are the clipper applied to the array whose row is the slice of four columns of
  the decoded boxes that starts at four times the predicted class: nothing of the other
  classes' boxes is kept.
\<close>

theorem decode_first_max_slice:
  assumes "0 < ncols scores" "wf_arr2 scores"
    and "nrows (bbox_transform_inv rois boxes) = nrows scores"
    and "wf_arr2 (bbox_transform_inv rois boxes)"
    and "ncols (bbox_transform_inv rois boxes) = 4 * ncols scores"
  shows "\<exists>final classes conf.
     decode bbox_transform_inv clip_boxes boxes scores rois ih iw =
       Inr (clip_boxes (Arr2 4 final) (ih, iw), classes, conf) \<and>
     length final = nrows scores \<and> length classes = nrows scores \<and>
     length conf = nrows scores \<and>
     (\<forall>i<nrows scores.
        classes ! i < ncols scores \<and>
        (\<forall>c<ncols scores. rows scores ! i ! c \<le> rows scores ! i ! (classes ! i)) \<and>
        (\<forall>c<classes ! i. rows scores ! i ! c < rows scores ! i ! (classes ! i)) \<and>
        conf ! i = rows scores ! i ! (classes ! i) \<and>
        final ! i = get_slice (rows (bbox_transform_inv rois boxes) ! i)
                      (classes ! i * 4) (classes ! i * 4 + 4) \<and>
        length (final ! i) = 4)"
proof -
  let ?dec = "bbox_transform_inv rois boxes"
  let ?R = "nrows scores" and ?K = "ncols scores"
  let ?classes = "map argmax (rows scores)"
  let ?conf = "map amax (rows scores)"
  let ?final = "map (\<lambda>i. get_slice (rows ?dec ! i) (?classes ! i * 4) (?classes ! i * 4 + 4)) [0..<?R]"
  have row: "\<And>i. i < ?R \<Longrightarrow> length (rows scores ! i) = ?K \<and> rows scores ! i \<noteq> []"
    using assms(1,2) by (auto simp: wf_arr2_def list_all_length nrows_def)
  have drow: "\<And>i. i < ?R \<Longrightarrow> length (rows ?dec ! i) = 4 * ?K"
    using assms(3,4,5) by (auto simp: wf_arr2_def list_all_length nrows_def)
  have cls: "\<And>i. i < ?R \<Longrightarrow> ?classes ! i = argmax (rows scores ! i)"
    by (simp add: nrows_def)
  have am: "\<And>i. i < ?R \<Longrightarrow> argmax (rows scores ! i) < ?K \<and>
      (\<forall>c<?K. rows scores ! i ! c \<le> rows scores ! i ! argmax (rows scores ! i)) \<and>
      (\<forall>c<argmax (rows scores ! i). rows scores ! i ! c < rows scores ! i ! argmax (rows scores ! i))"
    using row argmax_spec by metis
  have loop: "decode_loop ?dec ?classes [0..<?R] (replicate ?R (replicate 4 0)) =
     Inr (map (\<lambda>i. if i \<in> set [0..<?R]
                   then get_slice (rows ?dec ! i) (?classes ! i * 4) (?classes ! i * 4 + 4)
                   else replicate ?R (replicate 4 0) ! i) [0..<?R])"
  proof (rule decode_loop_run)
    show "distinct [0..<?R]" by simp
    show "\<forall>i\<in>set [0..<?R]. i < ?R \<and> i < length ?classes \<and>
        ?classes ! i * 4 + 4 \<le> length (rows ?dec ! i)"
    proof
      fix i assume "i \<in> set [0..<?R]"
      then have i: "i < ?R" by simp
      from am [OF i] have "argmax (rows scores ! i) * 4 + 4 \<le> 4 * ?K" by simp
      with i cls [OF i] drow [OF i] show "i < ?R \<and> i < length ?classes \<and>
        ?classes ! i * 4 + 4 \<le> length (rows ?dec ! i)"
        by (simp add: nrows_def)
    qed
    show "length (replicate ?R (replicate 4 (0::real))) = ?R" by simp
    show "list_all (\<lambda>r. length r = 4) (replicate ?R (replicate 4 (0::real)))"
      by (simp add: list_all_length)
  qed
  have fin: "map (\<lambda>i. if i \<in> set [0..<?R]
                   then get_slice (rows ?dec ! i) (?classes ! i * 4) (?classes ! i * 4 + 4)
                   else replicate ?R (replicate 4 0) ! i) [0..<?R] = ?final"
    by (rule map_cong) simp_all
  have loop2: "decode_loop ?dec ?classes [0..<?R] (replicate ?R (replicate 4 0)) = Inr ?final"
    unfolding fin [symmetric] by (rule loop)
  have d: "decode bbox_transform_inv clip_boxes boxes scores rois ih iw =
       Inr (clip_boxes (Arr2 4 ?final) (ih, iw), ?classes, ?conf)"
    using assms(1,3) unfolding decode_def Let_def zeros_def arr2.sel
    by (simp add: argmax_axis1_def max_axis1_def loop2)
  have props: "\<forall>i<?R.
        ?classes ! i < ?K \<and>
        (\<forall>c<?K. rows scores ! i ! c \<le> rows scores ! i ! (?classes ! i)) \<and>
        (\<forall>c<?classes ! i. rows scores ! i ! c < rows scores ! i ! (?classes ! i)) \<and>
        ?conf ! i = rows scores ! i ! (?classes ! i) \<and>
        ?final ! i = get_slice (rows ?dec ! i) (?classes ! i * 4) (?classes ! i * 4 + 4) \<and>
        length (?final ! i) = 4"
  proof (intro allI impI)
    fix i assume i: "i < ?R"
    have c: "?conf ! i = rows scores ! i ! (?classes ! i)"
      using i row [OF i] by (simp add: nrows_def amax_argmax)
    have f: "?final ! i = get_slice (rows ?dec ! i) (?classes ! i * 4) (?classes ! i * 4 + 4)"
      using i by simp
    have "4 * argmax (rows scores ! i) + 4 \<le> 4 * ?K" using am [OF i] by simp
    then have l: "length (?final ! i) = 4"
      unfolding f using drow [OF i] cls [OF i] by (simp add: get_slice_def)
    from am [OF i] c f l show "?classes ! i < ?K \<and>
        (\<forall>c<?K. rows scores ! i ! c \<le> rows scores ! i ! (?classes ! i)) \<and>
        (\<forall>c<?classes ! i. rows scores ! i ! c < rows scores ! i ! (?classes ! i)) \<and>
        ?conf ! i = rows scores ! i ! (?classes ! i) \<and>
        ?final ! i = get_slice (rows ?dec ! i) (?classes ! i * 4) (?classes ! i * 4 + 4) \<and>
        length (?final ! i) = 4"
      unfolding cls [OF i] by blast
  qed
  have lens: "length ?final = ?R" "length ?classes = ?R" "length ?conf = ?R"
    by (simp_all add: nrows_def)
  from d lens props show ?thesis by blast
qed

theorem decode_first_max_slice_witness:
  "0 < ncols (Arr2 2 [[1 / 10, 9 / 10], [1 / 2, 1 / 2]]) \<and>
   wf_arr2 (Arr2 2 [[1 / 10, 9 / 10], [1 / 2, 1 / 2]]) \<and>
   nrows (Arr2 8 [[0, 0, 0, 0, 10, 10, 50, 50], [1, 2, 3, 4, 5, 6, 7, 8]]) =
     nrows (Arr2 2 [[1 / 10, 9 / 10], [1 / 2, 1 / 2]]) \<and>
   wf_arr2 (Arr2 8 [[0, 0, 0, 0, 10, 10, 50, 50], [1, 2, 3, 4, 5, 6, 7, 8]]) \<and>
   decode (\<lambda>rois deltas. deltas) (\<lambda>boxes shape. boxes)
       (Arr2 8 [[0, 0, 0, 0, 10, 10, 50, 50], [1, 2, 3, 4, 5, 6, 7, 8]])
       (Arr2 2 [[1 / 10, 9 / 10], [1 / 2, 1 / 2]])
       (Arr2 4 [[10, 10, 50, 50], [1, 1, 2, 2]]) 100 100
     = Inr (Arr2 4 [[10, 10, 50, 50], [1, 2, 3, 4]], [1, 0], [9 / 10, 1 / 2])"
proof -
  let ?S = "Arr2 2 [[1 / 10, 9 / 10], [1 / 2, 1 / 2]]"
  let ?B = "Arr2 8 [[0, 0, 0, 0, 10, 10, 50, 50], [1, 2, 3, 4, 5, 6, 7, 8]]"
  have h: "0 < ncols ?S" "wf_arr2 ?S" "nrows ?B = nrows ?S" "wf_arr2 ?B" "ncols ?B = 4 * ncols ?S"
    by (simp_all add: wf_arr2_def nrows_def)
  have e: "decode (\<lambda>rois deltas. deltas) (\<lambda>boxes shape. boxes) ?B ?S
       (Arr2 4 [[10, 10, 50, 50], [1, 1, 2, 2]]) 100 100
     = Inr (Arr2 4 [[10, 10, 50, 50], [1, 2, 3, 4]], [1, 0], [9 / 10, 1 / 2])"
    by code_simp
  from decode_first_max_slice [of ?S "\<lambda>rois deltas. deltas" "Arr2 4 [[10, 10, 50, 50], [1, 1, 2, 2]]"
      ?B "\<lambda>boxes shape. boxes" 100 100, OF h] e h
  show ?thesis by simp
qed

text \<open>
  C10. With no foreground-eligible proposal the sampling stage does what the claim says:
  the foreground count is 0, the first draw is not made (the result does not depend on
  \<open>shuffle_fg\<close>), and the background target is all of \<^verbatim>\<open>rois_per_image\<close>; a
  background-eligible set within that target is kept whole. The call as a whole still
  raises when there are two or more proposals and fewer indices are kept: with one
  proposal between the thresholds and one background proposal, \<^verbatim>\<open>_compute_targets\<close>
  returns arrays of two rows, one index is kept, and \<^verbatim>\<open>_unmap\<close> raises ValueError.
\<close>

theorem encode_raises_without_foreground:
  "encode_match box_iou (Arr2 5 [[10, 10, 50, 50, 1]])
      (Arr2 4 [[10, 10, 50, 25], [100, 100, 110, 110]]) = Inr ([0, 0], [3 / 8, 0], [1, 1]) \<and>
   fg_eligible example_config [3 / 8, 0] = [] \<and>
   bg_eligible example_config [3 / 8, 0] = [1] \<and>
   encode_sample example_config float64 (\<lambda>xs. xs) (\<lambda>xs. xs) [3 / 8, 0] [1, 1]
     = Inr ([1, 0], [], [1], [1]) \<and>
   encode example_config float32 float64 box_iou corner_delta (\<lambda>xs. xs) (\<lambda>xs. xs)
       (Arr2 5 [[10, 10, 50, 50, 1]]) (Arr2 4 [[10, 10, 50, 25], [100, 100, 110, 110]]) 2
     = Inl ValueError"
  by code_simp

end
